theory Spec2Isabelle
  imports Complex_Main
begin

section \<open>The PriorityFloodFlowRouter tutorial notebook\<close>

text \<open>
  The repository is one notebook, \<^verbatim>\<open>the_Flow_Director_Accumulator_PriorityFlood.ipynb\<close>.
  Its code cells are a straight-line script over three libraries: numpy arrays, the landlab
  model grid with its flow router, and matplotlib. The script is embedded as a sequence of
  state transformers over the notebook's global variables (\<^verbatim>\<open>mg\<close>, \<^verbatim>\<open>fa\<close>, \<^verbatim>\<open>rain\<close>); every
  exception a statement can raise is a result of its own, and the calls that construct a grid
  or a router, store a field, act on the router, draw or print are recorded in a call log, in
  the order the notebook makes them.

  The libraries are not part of the repository. Array arithmetic, \<^verbatim>\<open>reshape\<close>, the raster
  grid's node numbering and its field store are written out below as the libraries document
  them; the router, whose algorithms the notebook only invokes, is a parameter.

  Arrays of float64 are lists of reals. Every number the notebook computes itself is an
  integer of magnitude at most 324 (coordinates \<open>0..9\<close>, elevations \<open>3x\<^sup>2 + y\<^sup>2\<close>), which
  float64 represents exactly, and for finite floats \<open>a - b = 0\<close> holds exactly when \<open>a = b\<close>.
\<close>

subsection \<open>Exceptions\<close>

datatype error = NameError | KeyError | ValueError | FieldError | IndexError

definition thn :: "error + 'a \<Rightarrow> ('a \<Rightarrow> error + 'b) \<Rightarrow> error + 'b" where
  "thn r f = (case r of Inl e \<Rightarrow> Inl e | Inr x \<Rightarrow> f x)"

subsection \<open>numpy: one-dimensional arrays, reshape, reductions\<close>

text \<open>
  An elementwise binary operation on two one-dimensional arrays: operands of equal length are
  paired index by index, an operand of length one is broadcast, anything else raises
  \<^verbatim>\<open>ValueError\<close>.
\<close>

definition np_binop :: "(real \<Rightarrow> real \<Rightarrow> real) \<Rightarrow> real list \<Rightarrow> real list \<Rightarrow> error + real list" where
  "np_binop f xs ys =
     (if length xs = length ys then Inr (map2 f xs ys)
      else if length xs = 1 then Inr (map (f (hd xs)) ys)
      else if length ys = 1 then Inr (map (\<lambda>x. f x (hd ys)) xs)
      else Inl ValueError)"

text \<open>\<^verbatim>\<open>a ** 2\<close> and \<^verbatim>\<open>c * a\<close>, \<^verbatim>\<open>c + a\<close> with a scalar \<^verbatim>\<open>c\<close>.\<close>

definition np_pow :: "real list \<Rightarrow> nat \<Rightarrow> real list" where
  "np_pow xs k = map (\<lambda>x. x ^ k) xs"

definition np_scale :: "real \<Rightarrow> real list \<Rightarrow> real list" where
  "np_scale c xs = map (\<lambda>x. c * x) xs"

definition np_shift :: "real \<Rightarrow> real list \<Rightarrow> real list" where
  "np_shift c xs = map (\<lambda>x. c + x) xs"

text \<open>
  \<^verbatim>\<open>a.reshape((r, c))\<close> of a one-dimensional array, in row-major order: \<open>r\<close> rows of \<open>c\<close>
  entries; \<^verbatim>\<open>ValueError\<close> when the sizes do not agree. \<open>ravel\<close> flattens in row-major order.
\<close>

fun rows_of :: "nat \<Rightarrow> nat \<Rightarrow> 'a list \<Rightarrow> 'a list list" where
  "rows_of 0 c xs = []"
| "rows_of (Suc r) c xs = take c xs # rows_of r c (drop c xs)"

definition reshape :: "'a list \<Rightarrow> nat \<times> nat \<Rightarrow> error + 'a list list" where
  "reshape xs sh =
     (if length xs = fst sh * snd sh then Inr (rows_of (fst sh) (snd sh) xs)
      else Inl ValueError)"

definition ravel :: "'a list list \<Rightarrow> 'a list" where
  "ravel Z = concat Z"

text \<open>\<^verbatim>\<open>Z.min()\<close> and \<^verbatim>\<open>Z.max()\<close> over all entries; both raise on an array without entries.\<close>

definition amin :: "real list list \<Rightarrow> error + real" where
  "amin Z = (if ravel Z = [] then Inl ValueError else Inr (Min (set (ravel Z))))"

definition amax :: "real list list \<Rightarrow> error + real" where
  "amax Z = (if ravel Z = [] then Inl ValueError else Inr (Max (set (ravel Z))))"

text \<open>
  Float division of array entries does not raise: a zero divisor gives \<^verbatim>\<open>nan\<close> or
  \<^verbatim>\<open>inf\<close> and a runtime warning. \<open>None\<close> stands for such an invalid entry.
\<close>

definition np_divide :: "real \<Rightarrow> real \<Rightarrow> real option" where
  "np_divide a b = (if b = 0 then None else Some (a / b))"

subsection \<open>landlab: the raster model grid and its at-node fields\<close>

record grid =
  shape :: "nat \<times> nat"
  x_of_node :: "real list"
  y_of_node :: "real list"
  at_node :: "string \<rightharpoonup> real list"

definition number_of_nodes :: "grid \<Rightarrow> nat" where
  "number_of_nodes g = fst (shape g) * snd (shape g)"

text \<open>
  \<^verbatim>\<open>RasterModelGrid((rows, cols))\<close> is a library constructor. With the default spacing of one
  and the origin at zero, nodes are numbered row by row from the lower left corner: node \<open>n\<close>
  lies in column \<open>n mod cols\<close> and row \<open>n div cols\<close>, and these are its coordinates. A new grid
  has no fields.
\<close>

definition RasterModelGrid :: "nat \<times> nat \<Rightarrow> grid" where
  "RasterModelGrid sh =
     \<lparr> shape = sh,
       x_of_node = map (\<lambda>n. real (n mod snd sh)) [0 ..< fst sh * snd sh],
       y_of_node = map (\<lambda>n. real (n div snd sh)) [0 ..< fst sh * snd sh],
       at_node = Map.empty \<rparr>"

text \<open>
  The nodes on the perimeter of a new raster grid are boundary nodes; the core nodes are the
  interior ones (the notebook: ``nodes that are on the edge of a grid, do not have area'').
\<close>

definition is_core :: "grid \<Rightarrow> nat \<Rightarrow> bool" where
  "is_core g n =
     (let rows = fst (shape g); cols = snd (shape g); r = n div cols; c = n mod cols
      in n < rows * cols \<and> 0 < r \<and> r + 1 < rows \<and> 0 < c \<and> c + 1 < cols)"

definition core_nodes :: "grid \<Rightarrow> nat list" where
  "core_nodes g = filter (is_core g) [0 ..< number_of_nodes g]"

text \<open>
  The eight nodes around an interior node (east, north, west, south, then the diagonals),
  by node number.
\<close>

definition d8_neighbors :: "grid \<Rightarrow> nat \<Rightarrow> nat list" where
  "d8_neighbors g n =
     (let cols = snd (shape g)
      in [n + 1, n + cols, n - 1, n - cols,
          n + cols + 1, n + cols - 1, n - cols - 1, n - cols + 1])"

text \<open>
  The at-node field store takes any array whose size is a multiple of \<open>number_of_nodes\<close>: an
  array of \<open>k\<close> times that many entries is kept as one row of \<open>k\<close> values per node (the
  router's own fields of eight values per node are stored this way), here as the flat list in
  row-major order. An array of any other size raises \<^verbatim>\<open>ValueError\<close>. \<^verbatim>\<open>add_field\<close> also
  refuses a name that is already there (\<^verbatim>\<open>FieldError\<close>) unless \<^verbatim>\<open>clobber=True\<close>; the notebook
  says so where it stores the rain (``our grid already has a field called water__unit_flux_in
  and we need to set the clobber keyword to True'').
\<close>

definition set_field :: "grid \<Rightarrow> string \<Rightarrow> real list \<Rightarrow> error + grid" where
  "set_field g name vals =
     (if length vals mod number_of_nodes g = 0
      then Inr (g\<lparr>at_node := (at_node g)(name \<mapsto> vals)\<rparr>)
      else Inl ValueError)"

definition add_field :: "grid \<Rightarrow> string \<Rightarrow> real list \<Rightarrow> bool \<Rightarrow> error + grid" where
  "add_field g name vals clobber =
     (if at_node g name \<noteq> None \<and> \<not> clobber then Inl FieldError
      else set_field g name vals)"

fun write_fields :: "grid \<Rightarrow> (string \<times> real list) list \<Rightarrow> error + grid" where
  "write_fields g [] = Inr g"
| "write_fields g ((name, vals) # ws) = thn (set_field g name vals) (\<lambda>g'. write_fields g' ws)"

subsection \<open>The plotting routine of the first code cell\<close>

text \<open>
  \<^verbatim>\<open>surf_plot(mg, surface="topographic__elevation", title="Surface plot of topography")\<close>
  computes the arrays it hands to \<^verbatim>\<open>plot_surface\<close>: the reshaped surface \<open>Z\<close>, the gray levels
  \<open>(Z - Z.min()) / (Z.max() - Z.min())\<close> and the reshaped coordinates. The figure records what is
  drawn.
\<close>

record figure =
  fig_X :: "real list list"
  fig_Y :: "real list list"
  fig_Z :: "real list list"
  facecolors :: "real option list list"
  fig_title :: string

definition surf_plot :: "grid \<Rightarrow> string option \<Rightarrow> string option \<Rightarrow> error + figure" where
  "surf_plot mg surface_arg title_arg =
     (let surface = (case surface_arg of None \<Rightarrow> ''topographic__elevation'' | Some n \<Rightarrow> n);
          title = (case title_arg of None \<Rightarrow> ''Surface plot of topography'' | Some t \<Rightarrow> t)
      in case at_node mg surface of
           None \<Rightarrow> Inl KeyError
         | Some a \<Rightarrow>
             thn (reshape a (shape mg)) (\<lambda>Z.
             thn (amin Z) (\<lambda>lo.
             thn (amax Z) (\<lambda>hi.
             thn (reshape (x_of_node mg) (shape mg)) (\<lambda>X.
             thn (reshape (y_of_node mg) (shape mg)) (\<lambda>Y.
               Inr \<lparr> fig_X = X, fig_Y = Y, fig_Z = Z,
                     facecolors = map (map (\<lambda>z. np_divide (z - lo) (hi - lo))) Z,
                     fig_title = title \<rparr>))))))"

subsection \<open>The router and the other library calls\<close>

text \<open>
  Keyword arguments are kept as written at the call, values included.
\<close>

datatype pyval = Str string | Bool bool | PyNone

type_synonym kwargs = "(string \<times> pyval) list"

text \<open>
  The calls that leave the notebook: grid and router constructions, \<^verbatim>\<open>add_field\<close> (field
  name and the \<^verbatim>\<open>clobber\<close> flag), a method call on the router object (method name and
  arguments), \<^verbatim>\<open>drainage_plot\<close> (the optional surface argument and the optional title), a
  matplotlib call (by name), \<^verbatim>\<open>np.random.rand\<close> (the size asked for) and \<^verbatim>\<open>print\<close> (what
  is printed).
\<close>

datatype event =
    New_grid "nat \<times> nat"
  | Add_field string bool
  | New_router kwargs
  | Router_call string "pyval list"
  | Drainage_plot "string option" "string option"
  | Plt string
  | Random_rand nat
  | Print string

text \<open>
  \<^verbatim>\<open>PriorityFloodFlowRouter\<close> and its algorithms are not part of the repository. The router is
  a parameter: its constructor and its \<^verbatim>\<open>run_one_step\<close> each return the router's next
  internal state (of some type \<open>'r\<close>) and the at-node fields they store on the grid, in order;
  the stores go through the grid's field store, so a store of a size the grid refuses raises
  where the router is called. \<open>random_draw\<close> is the sequence of numbers
  that \<^verbatim>\<open>np.random.rand\<close> draws, each in \<open>[0, 1)\<close>.
\<close>

record 'r lib =
  router_init :: "kwargs \<Rightarrow> grid \<Rightarrow> 'r \<times> (string \<times> real list) list"
  router_run :: "'r \<Rightarrow> grid \<Rightarrow> 'r \<times> (string \<times> real list) list"
  random_draw :: "nat \<Rightarrow> real"

definition np_random_rand :: "'r lib \<Rightarrow> nat \<Rightarrow> real list" where
  "np_random_rand lib n = map (random_draw lib) [0 ..< n]"

subsection \<open>The notebook's globals and statements\<close>

text \<open>
  Besides the three variables the state holds what the notebook has put out so far: the log of
  calls, and the surfaces that \<^verbatim>\<open>surf_plot\<close> has drawn.
\<close>

record 'r globals =
  mg :: "grid option"
  fa :: "'r option"
  rain :: "real list option"
  calls :: "event list"
  surfaces :: "figure list"

definition init :: "'r globals" where
  "init = \<lparr> mg = None, fa = None, rain = None, calls = [], surfaces = [] \<rparr>"

definition lookup :: "'a option \<Rightarrow> error + 'a" where
  "lookup v = (case v of None \<Rightarrow> Inl NameError | Some x \<Rightarrow> Inr x)"

definition emit :: "event list \<Rightarrow> 'r globals \<Rightarrow> 'r globals" where
  "emit es s = s\<lparr>calls := calls s @ es\<rparr>"

text \<open>\<^verbatim>\<open>mg = RasterModelGrid(sh)\<close>\<close>

definition new_grid :: "nat \<times> nat \<Rightarrow> 'r globals \<Rightarrow> error + 'r globals" where
  "new_grid sh s = Inr (emit [New_grid sh] (s\<lparr>mg := Some (RasterModelGrid sh)\<rparr>))"

text \<open>\<^verbatim>\<open>3.0 * mg.x_of_node**2 + mg.y_of_node**2\<close>\<close>

definition elevation_expr :: "grid \<Rightarrow> error + real list" where
  "elevation_expr g =
     np_binop (+) (np_scale 3 (np_pow (x_of_node g) 2)) (np_pow (y_of_node g) 2)"

text \<open>\<^verbatim>\<open>_ = mg.add_field("topographic__elevation", <the expression above>, at="node")\<close>\<close>

definition add_elevation :: "'r globals \<Rightarrow> error + 'r globals" where
  "add_elevation s =
     thn (lookup (mg s)) (\<lambda>g.
     thn (elevation_expr g) (\<lambda>z.
     thn (add_field g ''topographic__elevation'' z False) (\<lambda>g'.
       Inr (emit [Add_field ''topographic__elevation'' False] (s\<lparr>mg := Some g'\<rparr>)))))"

text \<open>\<^verbatim>\<open>surf_plot(mg, ...)\<close>, with the matplotlib calls the routine makes.\<close>

definition call_surf_plot :: "string option \<Rightarrow> string option \<Rightarrow> 'r globals \<Rightarrow> error + 'r globals" where
  "call_surf_plot surface_arg title_arg s =
     thn (lookup (mg s)) (\<lambda>g.
     thn (surf_plot g surface_arg title_arg) (\<lambda>fig.
       Inr (emit [Plt ''figure'', Plt ''axes'', Plt ''plot_surface'', Plt ''view_init'',
                  Plt ''set_xlabel'', Plt ''set_ylabel'', Plt ''set_zlabel'', Plt ''title'',
                  Plt ''show''] (s\<lparr>surfaces := surfaces s @ [fig]\<rparr>))))"

text \<open>\<^verbatim>\<open>fa = PriorityFloodFlowRouter(mg, **kw)\<close>\<close>

definition new_router :: "'r lib \<Rightarrow> kwargs \<Rightarrow> 'r globals \<Rightarrow> error + 'r globals" where
  "new_router lib kw s =
     thn (lookup (mg s)) (\<lambda>g.
       case router_init lib kw g of (r, ws) \<Rightarrow>
         thn (write_fields g ws) (\<lambda>g'.
           Inr (emit [New_router kw] (s\<lparr>mg := Some g', fa := Some r\<rparr>))))"

text \<open>
  \<^verbatim>\<open>fa.run_one_step()\<close>. Wherever the notebook calls it, the router bound to \<^verbatim>\<open>fa\<close> was
  constructed on the grid that \<^verbatim>\<open>mg\<close> is still bound to, so the router's grid is \<^verbatim>\<open>mg\<close>.
\<close>

definition run_one_step :: "'r lib \<Rightarrow> 'r globals \<Rightarrow> error + 'r globals" where
  "run_one_step lib s =
     thn (lookup (fa s)) (\<lambda>r.
     thn (lookup (mg s)) (\<lambda>g.
       case router_run lib r g of (r', ws) \<Rightarrow>
         thn (write_fields g ws) (\<lambda>g'.
           Inr (emit [Router_call ''run_one_step'' []] (s\<lparr>mg := Some g', fa := Some r'\<rparr>)))))"

text \<open>\<^verbatim>\<open>plt.figure()\<close>, \<^verbatim>\<open>plt.colorbar()\<close>, \<^verbatim>\<open>plt.show()\<close>\<close>

definition plt :: "string \<Rightarrow> 'r globals \<Rightarrow> error + 'r globals" where
  "plt name s = Inr (emit [Plt name] s)"

text \<open>
  \<^verbatim>\<open>drainage_plot(mg, surface="topographic__elevation", ..., title="Drainage Plot")\<close> is a
  library routine. It first draws the surface field as an image over the grid: the field must
  be there (\<^verbatim>\<open>FieldError\<close> otherwise) with one value per node (\<^verbatim>\<open>ValueError\<close> otherwise). Then
  it reads the field \<^verbatim>\<open>flow__receiver_node\<close> (\<^verbatim>\<open>FieldError\<close> when it is missing) and draws an
  arrow from every node to each of its receivers, looking the receivers up in the coordinate
  arrays: a receiver must be an integer that indexes them, from the front or, negative, from
  the back (\<^verbatim>\<open>IndexError\<close> otherwise). The drawing itself is matplotlib's.
\<close>

definition valid_index :: "nat \<Rightarrow> real \<Rightarrow> bool" where
  "valid_index n v \<longleftrightarrow> of_int \<lfloor>v\<rfloor> = v \<and> - real n \<le> v \<and> v < real n"

definition drainage_plot :: "string option \<Rightarrow> string option \<Rightarrow> 'r globals \<Rightarrow> error + 'r globals" where
  "drainage_plot surface_arg title_arg s =
     thn (lookup (mg s)) (\<lambda>g.
       let surface = (case surface_arg of None \<Rightarrow> ''topographic__elevation'' | Some n \<Rightarrow> n)
       in case at_node g surface of
            None \<Rightarrow> Inl FieldError
          | Some z \<Rightarrow>
              if length z \<noteq> number_of_nodes g then Inl ValueError
              else (case at_node g ''flow__receiver_node'' of
                      None \<Rightarrow> Inl FieldError
                    | Some receivers \<Rightarrow>
                        if list_all (valid_index (number_of_nodes g)) receivers
                        then Inr (emit [Drainage_plot surface_arg title_arg] s)
                        else Inl IndexError))"

text \<open>\<^verbatim>\<open>print(mg.at_node["drainage_area"].reshape(mg.shape))\<close>\<close>

definition print_drainage_area :: "'r globals \<Rightarrow> error + 'r globals" where
  "print_drainage_area s =
     thn (lookup (mg s)) (\<lambda>g.
       case at_node g ''drainage_area'' of
         None \<Rightarrow> Inl KeyError
       | Some a \<Rightarrow> thn (reshape a (shape g)) (\<lambda>Z. Inr (emit [Print ''drainage_area''] s)))"

text \<open>\<^verbatim>\<open>print(mg.number_of_core_nodes)\<close>\<close>

definition print_number_of_core_nodes :: "'r globals \<Rightarrow> error + 'r globals" where
  "print_number_of_core_nodes s =
     thn (lookup (mg s)) (\<lambda>g. Inr (emit [Print ''number_of_core_nodes''] s))"

text \<open>\<^verbatim>\<open>rain = 1.0 + 5.0 * np.random.rand(mg.number_of_nodes)\<close>\<close>

definition assign_rain :: "'r lib \<Rightarrow> 'r globals \<Rightarrow> error + 'r globals" where
  "assign_rain lib s =
     thn (lookup (mg s)) (\<lambda>g.
       Inr (emit [Random_rand (number_of_nodes g)]
              (s\<lparr>rain := Some (np_shift 1 (np_scale 5 (np_random_rand lib (number_of_nodes g))))\<rparr>)))"

text \<open>\<^verbatim>\<open>plt.imshow(rain.reshape(mg.shape), origin="lower", cmap="PuBu", vmin=0)\<close>\<close>

definition imshow_rain :: "'r globals \<Rightarrow> error + 'r globals" where
  "imshow_rain s =
     thn (lookup (rain s)) (\<lambda>a.
     thn (lookup (mg s)) (\<lambda>g.
     thn (reshape a (shape g)) (\<lambda>R. Inr (emit [Plt ''imshow''] s))))"

text \<open>\<^verbatim>\<open>_ = mg.add_field("water__unit_flux_in", rain, at="node", clobber=True)\<close>\<close>

definition add_rain :: "'r globals \<Rightarrow> error + 'r globals" where
  "add_rain s =
     thn (lookup (mg s)) (\<lambda>g.
     thn (lookup (rain s)) (\<lambda>a.
     thn (add_field g ''water__unit_flux_in'' a True) (\<lambda>g'.
       Inr (emit [Add_field ''water__unit_flux_in'' True] (s\<lparr>mg := Some g'\<rparr>)))))"

subsection \<open>The code cells, in order\<close>

text \<open>
  The first code cell imports the libraries and defines \<^verbatim>\<open>surf_plot\<close>; it runs nothing. The
  numbers below count code cells from there. A statement that raises ends the run.
\<close>

fun exec :: "('s \<Rightarrow> error + 's) list \<Rightarrow> 's \<Rightarrow> error + 's" where
  "exec [] s = Inr s"
| "exec (f # fs) s = thn (f s) (exec fs)"

definition cell_2 :: "('r globals \<Rightarrow> error + 'r globals) list" where
  "cell_2 = [new_grid (10, 10), add_elevation, call_surf_plot None (Some ''Grid 1'')]"

definition cell_3 :: "'r lib \<Rightarrow> ('r globals \<Rightarrow> error + 'r globals) list" where
  "cell_3 lib =
     [new_router lib [],
      new_router lib
        [(''surface'', Str ''topographic__elevation''),
         (''flow_metric'', Str ''D8''),
         (''update_flow_depressions'', Bool True),
         (''runoff_rate'', PyNone),
         (''depression_handler'', Str ''fill'')]]"

definition cell_4 :: "'r lib \<Rightarrow> ('r globals \<Rightarrow> error + 'r globals) list" where
  "cell_4 lib = [run_one_step lib]"

definition cell_5 :: "('r globals \<Rightarrow> error + 'r globals) list" where
  "cell_5 = [plt ''figure'', drainage_plot None None]"

definition cell_6 :: "('r globals \<Rightarrow> error + 'r globals) list" where
  "cell_6 = [plt ''figure'', drainage_plot (Some ''drainage_area'') None]"

definition cell_7 :: "('r globals \<Rightarrow> error + 'r globals) list" where
  "cell_7 = [print_drainage_area]"

definition cell_8 :: "('r globals \<Rightarrow> error + 'r globals) list" where
  "cell_8 = [print_number_of_core_nodes]"

definition cell_9 :: "'r lib \<Rightarrow> ('r globals \<Rightarrow> error + 'r globals) list" where
  "cell_9 lib = [assign_rain lib, imshow_rain, plt ''colorbar'', plt ''show'', add_rain]"

definition cell_10 :: "'r lib \<Rightarrow> ('r globals \<Rightarrow> error + 'r globals) list" where
  "cell_10 lib =
     [run_one_step lib, plt ''figure'',
      drainage_plot (Some ''surface_water__discharge'') (Some ''Discharge'')]"

text \<open>
  Cells 11 to 17 are one cell seven times over; only the \<^verbatim>\<open>flow_metric\<close> string differs.
\<close>

definition routing_cell :: "'r lib \<Rightarrow> string \<Rightarrow> ('r globals \<Rightarrow> error + 'r globals) list" where
  "routing_cell lib metric =
     [new_grid (10, 10), add_elevation,
      new_router lib [(''surface'', Str ''topographic__elevation''), (''flow_metric'', Str metric)],
      run_one_step lib, plt ''figure'',
      drainage_plot (Some ''surface_water__discharge'') (Some ''Discharge'')]"

definition notebook :: "'r lib \<Rightarrow> ('r globals \<Rightarrow> error + 'r globals) list" where
  "notebook lib =
     cell_2 @ cell_3 lib @ cell_4 lib @ cell_5 @ cell_6 @ cell_7 @ cell_8 @ cell_9 lib @
     cell_10 lib @
     routing_cell lib ''D4'' @ routing_cell lib ''Rho8'' @ routing_cell lib ''Rho4'' @
     routing_cell lib ''Quinn'' @ routing_cell lib ''Freeman'' @ routing_cell lib ''Holmgren'' @
     routing_cell lib ''Dinf''"

subsection \<open>Surfaces and array shapes\<close>

text \<open>
  A node is a local minimum of a surface when none of the eight nodes around it is strictly
  lower.
\<close>

definition local_minimum :: "grid \<Rightarrow> real list \<Rightarrow> nat \<Rightarrow> bool" where
  "local_minimum g z n \<longleftrightarrow> list_all (\<lambda>m. z ! n \<le> z ! m) (d8_neighbors g n)"


subsection \<open>Routers on which the notebook runs\<close>

text \<open>
  A field is sized when it holds one value per node. The receivers are in order when the field
  \<^verbatim>\<open>flow__receiver_node\<close> is there and all its entries index the nodes. \<^verbatim>\<open>drainage_plot\<close> returns
  exactly on a grid that is ready for its surface.
\<close>

definition sized :: "grid \<Rightarrow> string \<Rightarrow> bool" where
  "sized g name \<longleftrightarrow> (\<exists>a. at_node g name = Some a \<and> length a = number_of_nodes g)"

definition receivers_ok :: "grid \<Rightarrow> bool" where
  "receivers_ok g \<longleftrightarrow>
     (\<exists>r. at_node g ''flow__receiver_node'' = Some r \<and>
          list_all (valid_index (number_of_nodes g)) r)"

definition plot_ready :: "grid \<Rightarrow> string option \<Rightarrow> bool" where
  "plot_ready g surface_arg \<longleftrightarrow>
     sized g (case surface_arg of None \<Rightarrow> ''topographic__elevation'' | Some n \<Rightarrow> n) \<and>
     receivers_ok g"

definition routed :: "grid \<Rightarrow> bool" where
  "routed g \<longleftrightarrow>
     sized g ''topographic__elevation'' \<and> sized g ''drainage_area'' \<and>
     sized g ''surface_water__discharge'' \<and> receivers_ok g"

text \<open>
  A router serves the notebook when the grid's store takes every array it stores, its
  constructor leaves the elevation in place, and \<^verbatim>\<open>run_one_step\<close> on a grid with an elevation
  leaves the fields the notebook afterwards prints and plots. This is what the notebook needs
  of a router to run to its end; it is used to show that it can.
\<close>

definition serves :: "'r lib \<Rightarrow> bool" where
  "serves lib \<longleftrightarrow>
     (\<forall>kw g. \<forall>w \<in> set (snd (router_init lib kw g)). length (snd w) mod number_of_nodes g = 0) \<and>
     (\<forall>r g. \<forall>w \<in> set (snd (router_run lib r g)). length (snd w) mod number_of_nodes g = 0) \<and>
     (\<forall>kw g g'. sized g ''topographic__elevation'' \<longrightarrow>
        write_fields g (snd (router_init lib kw g)) = Inr g' \<longrightarrow>
        sized g' ''topographic__elevation'') \<and>
     (\<forall>r g g'. sized g ''topographic__elevation'' \<longrightarrow>
        write_fields g (snd (router_run lib r g)) = Inr g' \<longrightarrow> routed g')"

subsection \<open>Stages of a run\<close>

text \<open>
  \<open>total P f Q\<close>: from every state satisfying \<open>P\<close> the statements \<open>f\<close> return, in a state
  satisfying \<open>Q\<close>. The state predicates name the stages of the notebook.
\<close>

definition total :: "('s \<Rightarrow> bool) \<Rightarrow> ('s \<Rightarrow> error + 's) \<Rightarrow> ('s \<Rightarrow> bool) \<Rightarrow> bool" where
  "total P f Q \<longleftrightarrow> (\<forall>s. P s \<longrightarrow> (\<exists>s'. f s = Inr s' \<and> Q s'))"

definition has_new_dem :: "'r globals \<Rightarrow> bool" where
  "has_new_dem s \<longleftrightarrow>
     (\<exists>g. mg s = Some g \<and> shape g = (10, 10) \<and>
          x_of_node g = x_of_node (RasterModelGrid (10, 10)) \<and>
          y_of_node g = y_of_node (RasterModelGrid (10, 10)) \<and>
          at_node g ''topographic__elevation'' =
            Some (map (\<lambda>n. 3 * (real (n mod 10))\<^sup>2 + (real (n div 10))\<^sup>2) [0 ..< 100]))"

definition has_dem :: "'r globals \<Rightarrow> bool" where
  "has_dem s \<longleftrightarrow> (\<exists>g. mg s = Some g \<and> shape g = (10, 10) \<and> sized g ''topographic__elevation'')"

definition has_router :: "'r globals \<Rightarrow> bool" where
  "has_router s \<longleftrightarrow> has_dem s \<and> fa s \<noteq> None"

definition is_routed :: "'r globals \<Rightarrow> bool" where
  "is_routed s \<longleftrightarrow> fa s \<noteq> None \<and> (\<exists>g. mg s = Some g \<and> shape g = (10, 10) \<and> routed g)"

definition is_rained :: "'r globals \<Rightarrow> bool" where
  "is_rained s \<longleftrightarrow> is_routed s \<and> (\<exists>a. rain s = Some a \<and> length a = 100)"

subsection \<open>A concrete router and a concrete grid\<close>

text \<open>
  A router whose constructor stores a field of eight values per node and whose \<^verbatim>\<open>run_one_step\<close>
  sends every node to node 0 and stores a drainage area and a discharge of one everywhere, with
  random draws that are all zero; and a grid of one row and two nodes. The theorems with
  hypotheses are instantiated at them.
\<close>

definition demo_lib :: "unit lib" where
  "demo_lib =
     \<lparr> router_init =
         (\<lambda>kw g. ((), [(''squared_length_adjacent'', replicate (8 * number_of_nodes g) 1)])),
       router_run =
         (\<lambda>r g. ((), [(''flow__receiver_node'', replicate (number_of_nodes g) 0),
                       (''drainage_area'', replicate (number_of_nodes g) 1),
                       (''surface_water__discharge'', replicate (number_of_nodes g) 1)])),
       random_draw = (\<lambda>i. 0) \<rparr>"

definition tiny_grid :: grid where
  "tiny_grid =
     \<lparr> shape = (1, 2), x_of_node = [0, 1], y_of_node = [0, 0],
       at_node = [''topographic__elevation'' \<mapsto> [0, 3]] \<rparr>"

subsection \<open>The call log of a run\<close>

text \<open>
  The calls each statement of the notebook makes when it returns, statement by statement, and
  the log of a complete run.
\<close>

definition surf_plot_calls :: "event list" where
  "surf_plot_calls =
     [Plt ''figure'', Plt ''axes'', Plt ''plot_surface'', Plt ''view_init'',
      Plt ''set_xlabel'', Plt ''set_ylabel'', Plt ''set_zlabel'', Plt ''title'', Plt ''show'']"

definition routing_events :: "string \<Rightarrow> event list list" where
  "routing_events metric =
     [[New_grid (10, 10)], [Add_field ''topographic__elevation'' False],
      [New_router [(''surface'', Str ''topographic__elevation''), (''flow_metric'', Str metric)]],
      [Router_call ''run_one_step'' []], [Plt ''figure''],
      [Drainage_plot (Some ''surface_water__discharge'') (Some ''Discharge'')]]"

definition notebook_events :: "event list list" where
  "notebook_events =
     [[New_grid (10, 10)], [Add_field ''topographic__elevation'' False], surf_plot_calls,
      [New_router []],
      [New_router
         [(''surface'', Str ''topographic__elevation''),
          (''flow_metric'', Str ''D8''),
          (''update_flow_depressions'', Bool True),
          (''runoff_rate'', PyNone),
          (''depression_handler'', Str ''fill'')]],
      [Router_call ''run_one_step'' []],
      [Plt ''figure''], [Drainage_plot None None],
      [Plt ''figure''], [Drainage_plot (Some ''drainage_area'') None],
      [Print ''drainage_area''],
      [Print ''number_of_core_nodes''],
      [Random_rand 100], [Plt ''imshow''], [Plt ''colorbar''], [Plt ''show''],
      [Add_field ''water__unit_flux_in'' True],
      [Router_call ''run_one_step'' []], [Plt ''figure''],
      [Drainage_plot (Some ''surface_water__discharge'') (Some ''Discharge'')]] @
     routing_events ''D4'' @ routing_events ''Rho8'' @ routing_events ''Rho4'' @
     routing_events ''Quinn'' @ routing_events ''Freeman'' @ routing_events ''Holmgren'' @
     routing_events ''Dinf''"

definition notebook_calls :: "event list" where
  "notebook_calls = concat notebook_events"

text \<open>
  \<open>logs f es\<close>: whenever the statement \<open>f\<close> returns on a 10-by-10 grid it leaves a 10-by-10
  grid and has appended exactly the calls \<open>es\<close> to the log.
\<close>

definition on_grid10 :: "'r globals \<Rightarrow> bool" where
  "on_grid10 s \<longleftrightarrow> (\<forall>g. mg s = Some g \<longrightarrow> shape g = (10, 10))"

definition logs :: "('r globals \<Rightarrow> error + 'r globals) \<Rightarrow> event list \<Rightarrow> bool" where
  "logs f es \<longleftrightarrow>
     (\<forall>s s'. on_grid10 s \<longrightarrow> f s = Inr s' \<longrightarrow> on_grid10 s' \<and> calls s' = calls s @ es)"

subsection \<open>Reading the call log\<close>

text \<open>
  The variant names as the specification lists them, and the \<^verbatim>\<open>flow_metric\<close> string that
  denotes each: the name itself, except that D-infinity is written \<^verbatim>\<open>Dinf\<close>.
\<close>

definition spec_variants :: "string list" where
  "spec_variants =
     [''D8'', ''D4'', ''Rho8'', ''Rho4'', ''Quinn'', ''Freeman'', ''Holmgren'', ''D-infinity'']"

definition flow_metric_name :: "string \<Rightarrow> string" where
  "flow_metric_name v = (if v = ''D-infinity'' then ''Dinf'' else v)"

fun is_New_router :: "event \<Rightarrow> bool" where
  "is_New_router (New_router kw) = True"
| "is_New_router e = False"

fun is_Drainage_plot :: "event \<Rightarrow> bool" where
  "is_Drainage_plot (Drainage_plot a b) = True"
| "is_Drainage_plot e = False"

text \<open>
  The variants a call log demonstrates: a router constructed with an explicit \<^verbatim>\<open>flow_metric\<close>
  counts when, before the next router is constructed, \<^verbatim>\<open>run_one_step()\<close> is called and a
  \<^verbatim>\<open>drainage_plot\<close> follows that call.
\<close>

fun demonstrated :: "event list \<Rightarrow> string list" where
  "demonstrated [] = []"
| "demonstrated (New_router kw # es) =
     (let mine = takeWhile (\<lambda>e. \<not> is_New_router e) es;
          after_run = dropWhile (\<lambda>e. e \<noteq> Router_call ''run_one_step'' []) mine
      in case map_of kw ''flow_metric'' of
           Some (Str m) \<Rightarrow>
             if list_ex is_Drainage_plot after_run then m # demonstrated es else demonstrated es
         | _ \<Rightarrow> demonstrated es)"
| "demonstrated (e # es) = demonstrated es"

text \<open>
  What a demonstration does to the state. Between the states \<open>s0\<close> and \<open>s4\<close> a router with
  the \<^verbatim>\<open>flow_metric\<close> string \<open>m\<close> is constructed on the grid of \<open>s0\<close>, its stores are made, its
  \<^verbatim>\<open>run_one_step\<close> is run on the resulting grid and its stores are made, which gives the grid
  and the router of \<open>s4\<close>; these calls, a new figure and a \<^verbatim>\<open>drainage_plot\<close> are what the log
  gains, and the grid of \<open>s4\<close> holds what that plot reads.
\<close>

definition session :: "'r lib \<Rightarrow> 'r globals \<Rightarrow> 'r globals \<Rightarrow> string \<Rightarrow> bool" where
  "session lib s0 s4 m \<longleftrightarrow>
     (\<exists>kw a t g0 r0 ws0 g1 r1 ws1 g2.
        map_of kw ''flow_metric'' = Some (Str m) \<and>
        mg s0 = Some g0 \<and>
        router_init lib kw g0 = (r0, ws0) \<and> write_fields g0 ws0 = Inr g1 \<and>
        router_run lib r0 g1 = (r1, ws1) \<and> write_fields g1 ws1 = Inr g2 \<and>
        mg s4 = Some g2 \<and> fa s4 = Some r1 \<and>
        calls s4 =
          calls s0 @ [New_router kw, Router_call ''run_one_step'' [], Plt ''figure'',
                      Drainage_plot a t] \<and>
        plot_ready g2 a)"

text \<open>The method calls made on a router object, in order.\<close>

fun router_calls :: "event list \<Rightarrow> (string \<times> pyval list) list" where
  "router_calls [] = []"
| "router_calls (Router_call m args # es) = (m, args) # router_calls es"
| "router_calls (e # es) = router_calls es"

text \<open>The grid constructions and the stores of the elevation field, in order.\<close>

fun grid_setup :: "event list \<Rightarrow> event list" where
  "grid_setup [] = []"
| "grid_setup (New_grid sh # es) = New_grid sh # grid_setup es"
| "grid_setup (Add_field name c # es) =
     (if name = ''topographic__elevation'' then Add_field name c # grid_setup es else grid_setup es)"
| "grid_setup (e # es) = grid_setup es"

subsection \<open>Drawn surfaces\<close>

text \<open>\<open>keeps_surfaces f\<close>: the statement \<open>f\<close> draws no surface.\<close>

definition keeps_surfaces :: "('r globals \<Rightarrow> error + 'r globals) \<Rightarrow> bool" where
  "keeps_surfaces f \<longleftrightarrow> (\<forall>s s'. f s = Inr s' \<longrightarrow> surfaces s' = surfaces s)"

section \<open>Basic facts about the model\<close>

subsection \<open>Sequencing and reshape\<close>

lemma thn_Inr [simp]: "thn (Inr x) f = f x"
  by (simp add: thn_def)

lemma thn_Inl [simp]: "thn (Inl e) f = Inl e"
  by (simp add: thn_def)

lemma thn_eq_Inr: "thn r f = Inr y \<longleftrightarrow> (\<exists>x. r = Inr x \<and> f x = Inr y)"
  by (cases r) simp_all

lemma lookup_simps [simp]: "lookup (Some x) = Inr x" "lookup None = Inl NameError"
  by (simp_all add: lookup_def)

lemma lookup_eq_Inr [simp]: "lookup v = Inr x \<longleftrightarrow> v = Some x"
  by (cases v) (simp_all add: lookup_def)

lemma concat_rows_of: "length xs = r * c \<Longrightarrow> concat (rows_of r c xs) = xs"
proof (induction r arbitrary: xs)
  case 0
  then show ?case by simp
next
  case (Suc r)
  then have "length (drop c xs) = r * c" by simp
  with Suc.IH have "concat (rows_of r c (drop c xs)) = drop c xs" .
  then show ?case by simp
qed

lemma length_rows_of: "length (rows_of r c xs) = r"
  by (induction r arbitrary: xs) simp_all


lemma exec_append: "exec (fs @ gs) s = thn (exec fs s) (exec gs)"
proof (induction fs arbitrary: s)
  case Nil
  show ?case by simp
next
  case (Cons f fs)
  show ?case
  proof (cases "f s")
    case (Inl e)
    then show ?thesis by simp
  next
    case (Inr s')
    with Cons.IH show ?thesis by simp
  qed
qed

lemma calls_emit [simp]: "calls (emit es s) = calls s @ es"
  by (simp add: emit_def)

lemma emit_fields [simp]:
  "mg (emit es s) = mg s" "fa (emit es s) = fa s" "rain (emit es s) = rain s"
  "surfaces (emit es s) = surfaces s"
  by (simp_all add: emit_def)

subsection \<open>Prefixes and windows of a run\<close>

lemma exec_take_drop: "exec fs s = thn (exec (take k fs) s) (exec (drop k fs))"
  using exec_append[of "take k fs" "drop k fs" s] by simp

lemma exec_prefix:
  assumes "exec fs s = Inr s'"
  shows "\<exists>sk. exec (take k fs) s = Inr sk \<and> exec (drop k fs) sk = Inr s'"
  using assms exec_take_drop[of fs s k] by (simp add: thn_eq_Inr)

lemma exec_window:
  "exec (take (k + n) fs) s = thn (exec (take k fs) s) (exec (take n (drop k fs)))"
  using exec_append[of "take k fs" "take n (drop k fs)" s] by (simp add: take_add)

lemma exec_window_runs:
  assumes "exec fs s = Inr s'"
  shows "\<exists>s0 s1. exec (take k fs) s = Inr s0 \<and> exec (take n (drop k fs)) s0 = Inr s1 \<and>
           exec (take (k + n) fs) s = Inr s1"
proof -
  from exec_prefix[OF assms, of "k + n"] obtain s1 where "exec (take (k + n) fs) s = Inr s1"
    by blast
  then show ?thesis
    using exec_window[of k n fs s] by (auto simp: thn_eq_Inr)
qed

subsection \<open>The field store\<close>

lemma number_of_nodes_10: "shape g = (10, 10) \<Longrightarrow> number_of_nodes g = 100"
  by (simp add: number_of_nodes_def)

lemma set_field_Inr:
  "set_field g name a = Inr g' \<longleftrightarrow>
     length a mod number_of_nodes g = 0 \<and> g' = g\<lparr>at_node := (at_node g)(name \<mapsto> a)\<rparr>"
  by (auto simp: set_field_def)

lemma set_field_shape: "set_field g name a = Inr g' \<Longrightarrow> shape g' = shape g"
  by (simp add: set_field_Inr)

lemma set_field_nodes: "set_field g name a = Inr g' \<Longrightarrow> number_of_nodes g' = number_of_nodes g"
  by (simp add: set_field_Inr number_of_nodes_def)

lemma set_field_ok: "length a mod number_of_nodes g = 0 \<Longrightarrow> \<exists>g'. set_field g name a = Inr g'"
  by (simp add: set_field_def)

lemma add_field_shape: "add_field g name a c = Inr g' \<Longrightarrow> shape g' = shape g"
  by (auto simp: add_field_def set_field_shape split: if_splits)

lemma write_fields_shape: "write_fields g ws = Inr g' \<Longrightarrow> shape g' = shape g"
proof (induction ws arbitrary: g)
  case Nil
  then show ?case by simp
next
  case (Cons w ws)
  obtain name vals where w: "w = (name, vals)" by (cases w)
  from Cons.prems w obtain g1 where a: "set_field g name vals = Inr g1" and b: "write_fields g1 ws = Inr g'"
    by (auto simp: thn_eq_Inr)
  from Cons.IH[OF b] set_field_shape[OF a] show ?case by simp
qed

lemma write_fields_ok:
  "\<forall>w \<in> set ws. length (snd w) mod number_of_nodes g = 0 \<Longrightarrow> \<exists>g'. write_fields g ws = Inr g'"
proof (induction ws arbitrary: g)
  case Nil
  show ?case by simp
next
  case (Cons w ws)
  obtain name vals where w: "w = (name, vals)" by (cases w)
  with Cons.prems have len: "length vals mod number_of_nodes g = 0" by simp
  from set_field_ok[OF this, of name] obtain g1 where a: "set_field g name vals = Inr g1" ..
  have "number_of_nodes g1 = number_of_nodes g" using a by (rule set_field_nodes)
  with Cons.prems have "\<forall>w \<in> set ws. length (snd w) mod number_of_nodes g1 = 0" by simp
  from Cons.IH[OF this] a w show ?case by simp
qed

section \<open>The synthetic elevation field\<close>

lemma elevation_expr_ok:
  "length (x_of_node g) = length (y_of_node g) \<Longrightarrow>
   elevation_expr g = Inr (map2 (\<lambda>x y. 3 * x\<^sup>2 + y\<^sup>2) (x_of_node g) (y_of_node g))"
  by (simp add: elevation_expr_def np_binop_def np_scale_def np_pow_def zip_map_map case_prod_beta)

lemma reshape_ok:
  "length a = fst sh * snd sh \<Longrightarrow> \<exists>Z. reshape a sh = Inr Z \<and> ravel Z = a \<and> length Z = fst sh"
  by (simp add: reshape_def ravel_def concat_rows_of length_rows_of)

lemma raster_x: "n < 100 \<Longrightarrow> x_of_node (RasterModelGrid (10, 10)) ! n = real (n mod 10)"
  by (simp add: RasterModelGrid_def)

lemma raster_y: "n < 100 \<Longrightarrow> y_of_node (RasterModelGrid (10, 10)) ! n = real (n div 10)"
  by (simp add: RasterModelGrid_def)

lemma raster_elevation:
  "elevation_expr (RasterModelGrid (10, 10)) =
     Inr (map (\<lambda>n. 3 * (real (n mod 10))\<^sup>2 + (real (n div 10))\<^sup>2) [0 ..< 100])"
proof -
  let ?g = "RasterModelGrid (10, 10)"
  have "length (x_of_node ?g) = length (y_of_node ?g)" by (simp add: RasterModelGrid_def)
  then have "elevation_expr ?g = Inr (map2 (\<lambda>x y. 3 * x\<^sup>2 + y\<^sup>2) (x_of_node ?g) (y_of_node ?g))"
    by (rule elevation_expr_ok)
  also have "map2 (\<lambda>x y. 3 * x\<^sup>2 + y\<^sup>2) (x_of_node ?g) (y_of_node ?g) =
      map (\<lambda>n. 3 * (real (n mod 10))\<^sup>2 + (real (n div 10))\<^sup>2) [0 ..< 100]"
    by (simp add: RasterModelGrid_def zip_map_map zip_same_conv_map del: upt_rec_numeral)
  finally show ?thesis .
qed

lemma setup_grid:
  fixes s :: "'r globals"
  shows "\<exists>s1 s2 g.
     new_grid (10, 10) s = Inr s1 \<and> add_elevation s1 = Inr s2 \<and> mg s2 = Some g \<and>
     shape g = (10, 10) \<and>
     x_of_node g = x_of_node (RasterModelGrid (10, 10)) \<and>
     y_of_node g = y_of_node (RasterModelGrid (10, 10)) \<and>
     at_node g ''topographic__elevation'' =
       Some (map (\<lambda>n. 3 * (real (n mod 10))\<^sup>2 + (real (n div 10))\<^sup>2) [0 ..< 100])"
proof -
  let ?g = "RasterModelGrid (10, 10)"
  let ?z = "map (\<lambda>n. 3 * (real (n mod 10))\<^sup>2 + (real (n div 10))\<^sup>2) [0 ..< 100]"
  let ?s1 = "emit [New_grid (10, 10)] (s\<lparr>mg := Some ?g\<rparr>)"
  let ?g' = "?g\<lparr>at_node := (at_node ?g)(''topographic__elevation'' \<mapsto> ?z)\<rparr>"
  let ?s2 = "emit [Add_field ''topographic__elevation'' False] (?s1\<lparr>mg := Some ?g'\<rparr>)"
  have a: "new_grid (10, 10) s = Inr ?s1" by (simp add: new_grid_def)
  have "number_of_nodes ?g = 100" by (simp add: number_of_nodes_def RasterModelGrid_def)
  moreover have "at_node ?g ''topographic__elevation'' = None" by (simp add: RasterModelGrid_def)
  ultimately have "add_field ?g ''topographic__elevation'' ?z False = Inr ?g'"
    by (simp add: add_field_def set_field_def del: upt_rec_numeral)
  then have b: "add_elevation ?s1 = Inr ?s2"
    by (simp add: add_elevation_def raster_elevation del: upt_rec_numeral)
  have c: "mg ?s2 = Some ?g'" by simp
  have d: "shape ?g' = (10, 10)" by (simp add: RasterModelGrid_def)
  have e: "at_node ?g' ''topographic__elevation'' = Some ?z" by simp
  have f: "x_of_node ?g' = x_of_node ?g" "y_of_node ?g' = y_of_node ?g" by simp_all
  from a b c d e f show ?thesis by blast
qed

lemma exec_setup:
  fixes s :: "'r globals"
  shows "\<exists>s2 g.
     exec [new_grid (10, 10), add_elevation] s = Inr s2 \<and> mg s2 = Some g \<and>
     shape g = (10, 10) \<and>
     x_of_node g = x_of_node (RasterModelGrid (10, 10)) \<and>
     y_of_node g = y_of_node (RasterModelGrid (10, 10)) \<and>
     at_node g ''topographic__elevation'' =
       Some (map (\<lambda>n. 3 * (real (n mod 10))\<^sup>2 + (real (n div 10))\<^sup>2) [0 ..< 100])"
proof -
  from setup_grid[of s] obtain s1 s2 g where
    "new_grid (10, 10) s = Inr s1" "add_elevation s1 = Inr s2" "mg s2 = Some g"
    "shape g = (10, 10)"
    "x_of_node g = x_of_node (RasterModelGrid (10, 10))"
    "y_of_node g = y_of_node (RasterModelGrid (10, 10))"
    "at_node g ''topographic__elevation'' =
       Some (map (\<lambda>n. 3 * (real (n mod 10))\<^sup>2 + (real (n div 10))\<^sup>2) [0 ..< 100])"
    by blast
  then show ?thesis by (intro exI[of _ s2] exI[of _ g]) simp
qed

lemma dem_nth:
  "n < 100 \<Longrightarrow>
   map (\<lambda>n. 3 * (real (n mod 10))\<^sup>2 + (real (n div 10))\<^sup>2) [0 ..< 100] ! n =
     3 * (real (n mod 10))\<^sup>2 + (real (n div 10))\<^sup>2"
  by (simp del: upt_rec_numeral)

lemma sq_mono_nat: "a \<le> b \<Longrightarrow> (real a)\<^sup>2 \<le> (real b)\<^sup>2"
  by (simp add: power_mono)

lemma sq_strict_mono_nat: "a < b \<Longrightarrow> (real a)\<^sup>2 < (real b)\<^sup>2"
  by (simp add: power_strict_mono)

lemma dem_Min:
  "Min (set (map (\<lambda>n. 3 * (real (n mod 10))\<^sup>2 + (real (n div 10))\<^sup>2) [0 ..< 100])) = 0"
proof (rule Min_eqI)
  show "finite (set (map (\<lambda>n. 3 * (real (n mod 10))\<^sup>2 + (real (n div 10))\<^sup>2) [0 ..< 100]))"
    by (rule finite_set)
next
  fix y assume "y \<in> set (map (\<lambda>n. 3 * (real (n mod 10))\<^sup>2 + (real (n div 10))\<^sup>2) [0 ..< 100])"
  then obtain n where "y = 3 * (real (n mod 10))\<^sup>2 + (real (n div 10))\<^sup>2"
    by (auto simp del: upt_rec_numeral)
  then show "0 \<le> y" by simp
next
  have "(0::real) = 3 * (real (0 mod 10))\<^sup>2 + (real (0 div 10))\<^sup>2" by simp
  moreover have "(0::nat) \<in> set [0 ..< 100]" by (simp del: upt_rec_numeral)
  ultimately show "0 \<in> set (map (\<lambda>n. 3 * (real (n mod 10))\<^sup>2 + (real (n div 10))\<^sup>2) [0 ..< 100])"
    unfolding set_map by (rule image_eqI)
qed

lemma dem_Max:
  "Max (set (map (\<lambda>n. 3 * (real (n mod 10))\<^sup>2 + (real (n div 10))\<^sup>2) [0 ..< 100])) = 324"
proof (rule Max_eqI)
  show "finite (set (map (\<lambda>n. 3 * (real (n mod 10))\<^sup>2 + (real (n div 10))\<^sup>2) [0 ..< 100]))"
    by (rule finite_set)
next
  fix y assume "y \<in> set (map (\<lambda>n. 3 * (real (n mod 10))\<^sup>2 + (real (n div 10))\<^sup>2) [0 ..< 100])"
  then obtain n where n: "n < 100" and y: "y = 3 * (real (n mod 10))\<^sup>2 + (real (n div 10))\<^sup>2"
    by (auto simp del: upt_rec_numeral)
  have "n mod 10 \<le> 9" by arith
  then have a: "(real (n mod 10))\<^sup>2 \<le> (real 9)\<^sup>2" by (rule sq_mono_nat)
  from n have "n div 10 \<le> 9" by arith
  then have b: "(real (n div 10))\<^sup>2 \<le> (real 9)\<^sup>2" by (rule sq_mono_nat)
  from a b y show "y \<le> 324" by simp
next
  have "(324::real) = 3 * (real (99 mod 10))\<^sup>2 + (real (99 div 10))\<^sup>2" by simp
  moreover have "(99::nat) \<in> set [0 ..< 100]" by (simp del: upt_rec_numeral)
  ultimately show "324 \<in> set (map (\<lambda>n. 3 * (real (n mod 10))\<^sup>2 + (real (n div 10))\<^sup>2) [0 ..< 100])"
    unfolding set_map by (rule image_eqI)
qed

lemma surf_plot_Inr:
  assumes "surf_plot g sa ta = Inr fig"
  shows "\<exists>lo hi. ravel (fig_Z fig) \<noteq> [] \<and>
           amin (fig_Z fig) = Inr lo \<and> amax (fig_Z fig) = Inr hi \<and>
           facecolors fig = map (map (\<lambda>z. np_divide (z - lo) (hi - lo))) (fig_Z fig)"
  using assms
  by (auto simp: surf_plot_def Let_def thn_eq_Inr amin_def amax_def
           split: option.splits if_splits)

lemma invalid_color_iff:
  "zs \<noteq> [] \<Longrightarrow> (None \<in> set (map (\<lambda>z. np_divide (z - lo) d) zs)) = (d = 0)"
  by (cases zs) (auto simp: np_divide_def)

lemma ravel_map_map: "ravel (map (map f) Z) = map f (ravel Z)"
  by (simp add: ravel_def map_concat)

lemma Max_eq_Min_iff:
  fixes zs :: "real list"
  assumes "zs \<noteq> []"
  shows "(Max (set zs) - Min (set zs) = 0) = (\<forall>a \<in> set zs. \<forall>b \<in> set zs. a = b)"
proof
  assume eq: "Max (set zs) - Min (set zs) = 0"
  show "\<forall>a \<in> set zs. \<forall>b \<in> set zs. a = b"
  proof (intro ballI)
    fix a b assume a: "a \<in> set zs" and b: "b \<in> set zs"
    have "Min (set zs) \<le> a" "a \<le> Max (set zs)" "Min (set zs) \<le> b" "b \<le> Max (set zs)"
      using a b by simp_all
    with eq show "a = b" by linarith
  qed
next
  assume const: "\<forall>a \<in> set zs. \<forall>b \<in> set zs. a = b"
  from assms have "Max (set zs) \<in> set zs" "Min (set zs) \<in> set zs"
    by (simp_all add: Max_in Min_in)
  with const show "Max (set zs) - Min (set zs) = 0" by simp
qed

lemma surf_plot_dem:
  assumes sh: "shape g = (10, 10)"
    and x: "x_of_node g = x_of_node (RasterModelGrid (10, 10))"
    and y: "y_of_node g = y_of_node (RasterModelGrid (10, 10))"
    and z: "at_node g ''topographic__elevation'' =
       Some (map (\<lambda>n. 3 * (real (n mod 10))\<^sup>2 + (real (n div 10))\<^sup>2) [0 ..< 100])"
  shows "\<exists>fig. surf_plot g None t = Inr fig \<and>
           amin (fig_Z fig) = Inr 0 \<and> amax (fig_Z fig) = Inr 324 \<and>
           None \<notin> set (ravel (facecolors fig))"
proof -
  let ?z = "map (\<lambda>n. 3 * (real (n mod 10))\<^sup>2 + (real (n div 10))\<^sup>2) [0 ..< 100]"
  have lz: "length ?z = fst (shape g) * snd (shape g)" using sh by simp
  from reshape_ok[OF lz] obtain Z where Z: "reshape ?z (shape g) = Inr Z" "ravel Z = ?z" by blast
  have "length (x_of_node g) = fst (shape g) * snd (shape g)"
    using sh x by (simp add: RasterModelGrid_def)
  from reshape_ok[OF this] obtain X where X: "reshape (x_of_node g) (shape g) = Inr X" by blast
  have "length (y_of_node g) = fst (shape g) * snd (shape g)"
    using sh y by (simp add: RasterModelGrid_def)
  from reshape_ok[OF this] obtain Y where Y: "reshape (y_of_node g) (shape g) = Inr Y" by blast
  have ne: "ravel Z \<noteq> []" unfolding Z(2) by simp
  have lo: "amin Z = Inr 0" using ne unfolding amin_def Z(2) dem_Min by simp
  have hi: "amax Z = Inr 324" using ne unfolding amax_def Z(2) dem_Max by simp
  let ?fig = "\<lparr> fig_X = X, fig_Y = Y, fig_Z = Z,
                 facecolors = map (map (\<lambda>z. np_divide (z - 0) (324 - 0))) Z,
                 fig_title = (case t of None \<Rightarrow> ''Surface plot of topography'' | Some t \<Rightarrow> t) \<rparr>"
  have run: "surf_plot g None t = Inr ?fig"
    using z Z(1) X Y lo hi by (simp add: surf_plot_def del: upt_rec_numeral)
  have "None \<notin> set (ravel (facecolors ?fig))"
    using ne invalid_color_iff[of "ravel Z" 0 324] by (simp add: ravel_map_map)
  with run lo hi show ?thesis by (intro exI[of _ ?fig]) simp
qed

section \<open>The elevation field has no depressions\<close>

lemma is_core_10:
  "shape g = (10, 10) \<Longrightarrow>
   is_core g n = (n < 100 \<and> 0 < n div 10 \<and> n div 10 < 9 \<and> 0 < n mod 10 \<and> n mod 10 < 9)"
  by (auto simp: is_core_def Let_def)

lemma core_nodes_10:
  "shape g = (10, 10) \<Longrightarrow>
   (n \<in> set (core_nodes g)) = (n < 100 \<and> 0 < n div 10 \<and> n div 10 < 9 \<and> 0 < n mod 10 \<and> n mod 10 < 9)"
  by (auto simp: core_nodes_def is_core_10 number_of_nodes_def simp del: upt_rec_numeral)

lemma dem_mono:
  assumes "a \<le> c" and "b \<le> d" and "a < c \<or> b < d"
  shows "3 * (real a)\<^sup>2 + (real b)\<^sup>2 < 3 * (real c)\<^sup>2 + (real d)\<^sup>2"
proof -
  from assms(1) have x: "(real a)\<^sup>2 \<le> (real c)\<^sup>2" by (rule sq_mono_nat)
  from assms(2) have y: "(real b)\<^sup>2 \<le> (real d)\<^sup>2" by (rule sq_mono_nat)
  from assms(3) show ?thesis
  proof
    assume "a < c"
    then have "(real a)\<^sup>2 < (real c)\<^sup>2" by (rule sq_strict_mono_nat)
    with y show ?thesis by linarith
  next
    assume "b < d"
    then have "(real b)\<^sup>2 < (real d)\<^sup>2" by (rule sq_strict_mono_nat)
    with x show ?thesis by linarith
  qed
qed

lemma shift_west:
  fixes n k :: nat
  assumes "k \<le> n mod 10"
  shows "(n - k) mod 10 = n mod 10 - k" and "(n - k) div 10 = n div 10"
proof -
  define q where "q = n div 10"
  define r where "r = n mod 10"
  have n: "n = 10 * q + r" by (simp add: q_def r_def)
  have r: "r < 10" by (simp add: r_def)
  from assms have k: "k \<le> r" by (simp add: r_def)
  with n have d: "n - k = 10 * q + (r - k)" by linarith
  from r have rk: "r - k < 10" by linarith
  from rk show "(n - k) mod 10 = n mod 10 - k" unfolding d by (simp add: r_def)
  from rk show "(n - k) div 10 = n div 10" unfolding d by (simp add: q_def)
qed

lemma shift_south:
  fixes n :: nat
  assumes "0 < n div 10"
  shows "(n - 10) mod 10 = n mod 10" and "(n - 10) div 10 = n div 10 - 1"
proof -
  define q where "q = n div 10"
  define r where "r = n mod 10"
  have n: "n = 10 * q + r" by (simp add: q_def r_def)
  have r: "r < 10" by (simp add: r_def)
  from assms have q: "1 \<le> q" by (simp add: q_def)
  with n have d: "n - 10 = 10 * (q - 1) + r" by linarith
  from r show "(n - 10) mod 10 = n mod 10" unfolding d by (simp add: r_def)
  from r show "(n - 10) div 10 = n div 10 - 1" unfolding d by (simp add: q_def)
qed

lemma west_end: "(n - n mod 10) mod 10 = (0::nat)"
  by (simp add: minus_mod_eq_mult_div)

text \<open>
  Claim C10. On the grid the notebook sets up, the coordinates are non-negative and the
  elevation \<open>3x\<^sup>2 + y\<^sup>2\<close> is strictly increasing in \<open>x\<close> and in \<open>y\<close>: a node that is nowhere
  behind another and strictly before it in one coordinate is strictly lower. So every core
  node \<open>n\<close> has strictly lower neighbours, the one to the west (\<open>n - 1\<close>, smaller \<open>x\<close>, same
  \<open>y\<close>) and the one to the south (\<open>n - 10\<close>, smaller \<open>y\<close>, same \<open>x\<close>); no core node is a local
  minimum; and walking west from a core node descends strictly at every step until it leaves
  the core at the grid's edge, so no depression holds water back.
\<close>

theorem dem_has_no_depressions:
  fixes s0 :: "'r globals"
  shows "\<exists>s2 g z.
     exec [new_grid (10, 10), add_elevation] s0 = Inr s2 \<and> mg s2 = Some g \<and>
     shape g = (10, 10) \<and> at_node g ''topographic__elevation'' = Some z \<and>
     (\<forall>n < 100. 0 \<le> x_of_node g ! n \<and> 0 \<le> y_of_node g ! n) \<and>
     (\<forall>m < 100. \<forall>n < 100.
        x_of_node g ! m \<le> x_of_node g ! n \<and> y_of_node g ! m \<le> y_of_node g ! n \<and>
        (x_of_node g ! m < x_of_node g ! n \<or> y_of_node g ! m < y_of_node g ! n)
        \<longrightarrow> z ! m < z ! n) \<and>
     (\<forall>n \<in> set (core_nodes g).
        n - 1 \<in> set (d8_neighbors g n) \<and> n - 10 \<in> set (d8_neighbors g n) \<and>
        x_of_node g ! (n - 1) < x_of_node g ! n \<and> y_of_node g ! (n - 1) = y_of_node g ! n \<and>
        y_of_node g ! (n - 10) < y_of_node g ! n \<and> x_of_node g ! (n - 10) = x_of_node g ! n \<and>
        z ! (n - 1) < z ! n \<and> z ! (n - 10) < z ! n \<and>
        \<not> local_minimum g z n \<and>
        (\<forall>k < n mod 10. z ! (n - Suc k) < z ! (n - k)) \<and>
        \<not> is_core g (n - n mod 10))"
proof -
  let ?z = "map (\<lambda>n. 3 * (real (n mod 10))\<^sup>2 + (real (n div 10))\<^sup>2) [0 ..< 100]"
  from exec_setup[of s0] obtain s2 g where g:
    "exec [new_grid (10, 10), add_elevation] s0 = Inr s2" "mg s2 = Some g"
    "shape g = (10, 10)"
    "x_of_node g = x_of_node (RasterModelGrid (10, 10))"
    "y_of_node g = y_of_node (RasterModelGrid (10, 10))"
    "at_node g ''topographic__elevation'' = Some ?z"
    by blast
  have x: "\<And>n. n < 100 \<Longrightarrow> x_of_node g ! n = real (n mod 10)"
    unfolding g(4) by (rule raster_x)
  have y: "\<And>n. n < 100 \<Longrightarrow> y_of_node g ! n = real (n div 10)"
    unfolding g(5) by (rule raster_y)
  note z = dem_nth
  have nonneg: "\<forall>n < 100. 0 \<le> x_of_node g ! n \<and> 0 \<le> y_of_node g ! n"
    by (simp add: x y)
  have mono: "\<forall>m < 100. \<forall>n < 100.
        x_of_node g ! m \<le> x_of_node g ! n \<and> y_of_node g ! m \<le> y_of_node g ! n \<and>
        (x_of_node g ! m < x_of_node g ! n \<or> y_of_node g ! m < y_of_node g ! n)
        \<longrightarrow> ?z ! m < ?z ! n"
  proof (intro allI impI)
    fix m n :: nat
    assume m: "m < 100" and n: "n < 100"
      and h: "x_of_node g ! m \<le> x_of_node g ! n \<and> y_of_node g ! m \<le> y_of_node g ! n \<and>
        (x_of_node g ! m < x_of_node g ! n \<or> y_of_node g ! m < y_of_node g ! n)"
    from h m n have "m mod 10 \<le> n mod 10" "m div 10 \<le> n div 10"
        "m mod 10 < n mod 10 \<or> m div 10 < n div 10"
      by (simp_all add: x y)
    then have "3 * (real (m mod 10))\<^sup>2 + (real (m div 10))\<^sup>2 <
               3 * (real (n mod 10))\<^sup>2 + (real (n div 10))\<^sup>2"
      by (rule dem_mono)
    with m n show "?z ! m < ?z ! n" by (simp only: z)
  qed
  have core: "\<forall>n \<in> set (core_nodes g).
        n - 1 \<in> set (d8_neighbors g n) \<and> n - 10 \<in> set (d8_neighbors g n) \<and>
        x_of_node g ! (n - 1) < x_of_node g ! n \<and> y_of_node g ! (n - 1) = y_of_node g ! n \<and>
        y_of_node g ! (n - 10) < y_of_node g ! n \<and> x_of_node g ! (n - 10) = x_of_node g ! n \<and>
        ?z ! (n - 1) < ?z ! n \<and> ?z ! (n - 10) < ?z ! n \<and>
        \<not> local_minimum g ?z n \<and>
        (\<forall>k < n mod 10. ?z ! (n - Suc k) < ?z ! (n - k)) \<and>
        \<not> is_core g (n - n mod 10)"
  proof
    fix n assume "n \<in> set (core_nodes g)"
    with g(3) have n: "n < 100" "0 < n div 10" "n div 10 < 9" "0 < n mod 10" "n mod 10 < 9"
      by (simp_all add: core_nodes_10)
    from n(4) have "1 \<le> n mod 10" by simp
    note w = shift_west[OF this]
    note s = shift_south[OF n(2)]
    from n(1) have lt: "n - 1 < 100" "n - 10 < 100" by simp_all
    have nb: "n - 1 \<in> set (d8_neighbors g n)" "n - 10 \<in> set (d8_neighbors g n)"
      using g(3) by (simp_all add: d8_neighbors_def)
    have xw: "x_of_node g ! (n - 1) < x_of_node g ! n"
      using n w lt by (simp add: x)
    have ys: "y_of_node g ! (n - 10) < y_of_node g ! n"
      using n s lt by (simp add: y)
    have yw: "y_of_node g ! (n - 1) = y_of_node g ! n"
      using n w lt by (simp add: y)
    have xs: "x_of_node g ! (n - 10) = x_of_node g ! n"
      using n s lt by (simp add: x)
    have "3 * (real ((n - 1) mod 10))\<^sup>2 + (real ((n - 1) div 10))\<^sup>2 <
          3 * (real (n mod 10))\<^sup>2 + (real (n div 10))\<^sup>2"
      using n w by (intro dem_mono) simp_all
    with n(1) lt(1) have zw: "?z ! (n - 1) < ?z ! n" by (simp only: z)
    have "3 * (real ((n - 10) mod 10))\<^sup>2 + (real ((n - 10) div 10))\<^sup>2 <
          3 * (real (n mod 10))\<^sup>2 + (real (n div 10))\<^sup>2"
      using n s by (intro dem_mono) simp_all
    with n(1) lt(2) have zs: "?z ! (n - 10) < ?z ! n" by (simp only: z)
    have nolm: "\<not> local_minimum g ?z n"
    proof
      assume "local_minimum g ?z n"
      with nb(1) have "?z ! n \<le> ?z ! (n - 1)"
        unfolding local_minimum_def list_all_iff by blast
      with zw show False by linarith
    qed
    have walk: "\<forall>k < n mod 10. ?z ! (n - Suc k) < ?z ! (n - k)"
    proof (intro allI impI)
      fix k assume k: "k < n mod 10"
      from k have "Suc k \<le> n mod 10" "k \<le> n mod 10" by simp_all
      note ww = shift_west[OF this(1)] shift_west[OF this(2)]
      from n(1) have lk: "n - Suc k < 100" "n - k < 100" by simp_all
      have "3 * (real ((n - Suc k) mod 10))\<^sup>2 + (real ((n - Suc k) div 10))\<^sup>2 <
            3 * (real ((n - k) mod 10))\<^sup>2 + (real ((n - k) div 10))\<^sup>2"
      proof (rule dem_mono)
        have "n mod 10 - Suc k < n mod 10 - k"
          using k by (intro diff_less_mono2) simp_all
        then have lt': "(n - Suc k) mod 10 < (n - k) mod 10" by (simp only: ww)
        then show "(n - Suc k) mod 10 \<le> (n - k) mod 10" by (rule less_imp_le)
        show "(n - Suc k) div 10 \<le> (n - k) div 10" by (simp only: ww)
        from lt' show "(n - Suc k) mod 10 < (n - k) mod 10 \<or> (n - Suc k) div 10 < (n - k) div 10" ..
      qed
      with lk show "?z ! (n - Suc k) < ?z ! (n - k)" by (simp only: z)
    qed
    have edge: "\<not> is_core g (n - n mod 10)"
      using g(3) by (simp add: is_core_10 west_end)
    from nb xw ys yw xs zw zs nolm walk edge
    show "n - 1 \<in> set (d8_neighbors g n) \<and> n - 10 \<in> set (d8_neighbors g n) \<and>
        x_of_node g ! (n - 1) < x_of_node g ! n \<and> y_of_node g ! (n - 1) = y_of_node g ! n \<and>
        y_of_node g ! (n - 10) < y_of_node g ! n \<and> x_of_node g ! (n - 10) = x_of_node g ! n \<and>
        ?z ! (n - 1) < ?z ! n \<and> ?z ! (n - 10) < ?z ! n \<and>
        \<not> local_minimum g ?z n \<and>
        (\<forall>k < n mod 10. ?z ! (n - Suc k) < ?z ! (n - k)) \<and>
        \<not> is_core g (n - n mod 10)"
      by blast
  qed
  from g(1,2,3,6) nonneg mono core show ?thesis by blast
qed

theorem dem_has_no_depressions_witness:
  "\<exists>s2 g z.
     exec [new_grid (10, 10), add_elevation] (init :: unit globals) = Inr s2 \<and> mg s2 = Some g \<and>
     at_node g ''topographic__elevation'' = Some z \<and>
     (11::nat) < 100 \<and> (10::nat) < 100 \<and> 11 \<in> set (core_nodes g) \<and> (0::nat) < 11 mod 10 \<and>
     0 \<le> x_of_node g ! 11 \<and> 0 \<le> y_of_node g ! 11 \<and>
     x_of_node g ! 10 \<le> x_of_node g ! 11 \<and> y_of_node g ! 10 \<le> y_of_node g ! 11 \<and>
     (x_of_node g ! 10 < x_of_node g ! 11 \<or> y_of_node g ! 10 < y_of_node g ! 11) \<and>
     z ! 10 < z ! 11 \<and> z ! 1 < z ! 11 \<and> \<not> local_minimum g z 11 \<and> \<not> is_core g 10"
proof -
  from dem_has_no_depressions[of "init :: unit globals"] obtain s2 g z where g:
    "exec [new_grid (10, 10), add_elevation] (init :: unit globals) = Inr s2" "mg s2 = Some g"
    "shape g = (10, 10)" "at_node g ''topographic__elevation'' = Some z"
    and nonneg: "\<forall>n < 100. 0 \<le> x_of_node g ! n \<and> 0 \<le> y_of_node g ! n"
    and mono: "\<forall>m < 100. \<forall>n < 100.
        x_of_node g ! m \<le> x_of_node g ! n \<and> y_of_node g ! m \<le> y_of_node g ! n \<and>
        (x_of_node g ! m < x_of_node g ! n \<or> y_of_node g ! m < y_of_node g ! n)
        \<longrightarrow> z ! m < z ! n"
    and core: "\<forall>n \<in> set (core_nodes g).
        n - 1 \<in> set (d8_neighbors g n) \<and> n - 10 \<in> set (d8_neighbors g n) \<and>
        x_of_node g ! (n - 1) < x_of_node g ! n \<and> y_of_node g ! (n - 1) = y_of_node g ! n \<and>
        y_of_node g ! (n - 10) < y_of_node g ! n \<and> x_of_node g ! (n - 10) = x_of_node g ! n \<and>
        z ! (n - 1) < z ! n \<and> z ! (n - 10) < z ! n \<and>
        \<not> local_minimum g z n \<and>
        (\<forall>k < n mod 10. z ! (n - Suc k) < z ! (n - k)) \<and>
        \<not> is_core g (n - n mod 10)"
    by blast
  have c: "11 \<in> set (core_nodes g)" using g(3) by (simp add: core_nodes_10)
  from core c have at11:
    "x_of_node g ! (11 - 1) < x_of_node g ! 11" "y_of_node g ! (11 - 1) = y_of_node g ! 11"
    "z ! (11 - 10) < z ! 11" "\<not> local_minimum g z 11" "\<not> is_core g (11 - 11 mod 10)"
    by blast+
  then have x10: "x_of_node g ! 10 < x_of_node g ! 11" and y10: "y_of_node g ! 10 = y_of_node g ! 11"
    and z1: "z ! 1 < z ! 11" and e: "\<not> is_core g 10"
    by simp_all
  have lt: "(11::nat) < 100" "(10::nat) < 100" by simp_all
  from mono lt x10 y10 have z10: "z ! 10 < z ! 11" by simp
  from nonneg lt have nn: "0 \<le> x_of_node g ! 11" "0 \<le> y_of_node g ! 11" by simp_all
  from g c x10 y10 z10 z1 at11(4) e nn show ?thesis by simp
qed

section \<open>The notebook can run to its end\<close>

lemma pred_emit [simp]:
  "has_new_dem (emit es s) = has_new_dem s"
  "has_dem (emit es s) = has_dem s"
  "has_router (emit es s) = has_router s"
  "is_routed (emit es s) = is_routed s"
  "is_rained (emit es s) = is_rained s"
  by (simp_all add: has_new_dem_def has_dem_def has_router_def is_routed_def is_rained_def)

lemma pred_weaken:
  "has_new_dem s \<Longrightarrow> has_dem s"
  "has_router s \<Longrightarrow> has_dem s"
  "is_routed s \<Longrightarrow> has_router s"
  "is_routed s \<Longrightarrow> has_dem s"
  "is_rained s \<Longrightarrow> is_routed s"
  by (auto simp: has_new_dem_def has_dem_def has_router_def is_routed_def is_rained_def
      routed_def sized_def number_of_nodes_def)

lemma total_Nil: "(\<And>s. P s \<Longrightarrow> Q s) \<Longrightarrow> total P (exec []) Q"
  by (simp add: total_def)

lemma total_Cons:
  assumes "total P f Q" and "total Q (exec fs) R"
  shows "total P (exec (f # fs)) R"
  unfolding total_def
proof (intro allI impI)
  fix s assume "P s"
  with assms(1) obtain s1 where a: "f s = Inr s1" "Q s1" by (auto simp: total_def)
  with assms(2) obtain s2 where b: "exec fs s1 = Inr s2" "R s2" by (auto simp: total_def)
  from a b show "\<exists>s'. exec (f # fs) s = Inr s' \<and> R s'" by simp
qed

lemma total_append:
  assumes "total P (exec fs) Q" and "total Q (exec gs) R"
  shows "total P (exec (fs @ gs)) R"
  unfolding total_def
proof (intro allI impI)
  fix s assume "P s"
  with assms(1) obtain s1 where a: "exec fs s = Inr s1" "Q s1" by (auto simp: total_def)
  with assms(2) obtain s2 where b: "exec gs s1 = Inr s2" "R s2" by (auto simp: total_def)
  from a b show "\<exists>s'. exec (fs @ gs) s = Inr s' \<and> R s'" by (simp add: exec_append)
qed

lemma total_setup: "total P (exec [new_grid (10, 10), add_elevation]) has_new_dem"
  unfolding total_def
proof (intro allI impI)
  fix s :: "'a globals"
  from exec_setup[of s] show "\<exists>s'. exec [new_grid (10, 10), add_elevation] s = Inr s' \<and> has_new_dem s'"
    unfolding has_new_dem_def by blast
qed

lemma total_call_surf_plot: "total has_new_dem (call_surf_plot None t) has_dem"
  unfolding total_def
proof (intro allI impI)
  fix s :: "'a globals"
  assume h: "has_new_dem s"
  then obtain g where g: "mg s = Some g" "shape g = (10, 10)"
    "x_of_node g = x_of_node (RasterModelGrid (10, 10))"
    "y_of_node g = y_of_node (RasterModelGrid (10, 10))"
    "at_node g ''topographic__elevation'' =
       Some (map (\<lambda>n. 3 * (real (n mod 10))\<^sup>2 + (real (n div 10))\<^sup>2) [0 ..< 100])"
    unfolding has_new_dem_def by blast
  from surf_plot_dem[OF g(2,3,4,5), of t] obtain fig where "surf_plot g None t = Inr fig" by blast
  with g(1) pred_weaken(1)[OF h] show "\<exists>s'. call_surf_plot None t s = Inr s' \<and> has_dem s'"
    by (simp add: call_surf_plot_def has_dem_def)
qed

lemma total_new_router:
  assumes good: "serves lib" and pre: "\<And>s. P s \<Longrightarrow> has_dem s"
  shows "total P (new_router lib kw) has_router"
  unfolding total_def
proof (intro allI impI)
  fix s assume "P s"
  then have "has_dem s" by (rule pre)
  then obtain g where g: "mg s = Some g" "shape g = (10, 10)" "sized g ''topographic__elevation''"
    by (auto simp: has_dem_def)
  obtain r ws where rw: "router_init lib kw g = (r, ws)" by (cases "router_init lib kw g")
  from good rw have "\<forall>w \<in> set ws. length (snd w) mod number_of_nodes g = 0"
    by (metis serves_def snd_conv)
  from write_fields_ok[OF this] obtain g' where w: "write_fields g ws = Inr g'" ..
  from good g(3) w rw have "sized g' ''topographic__elevation''"
    by (metis serves_def snd_conv)
  moreover from write_fields_shape[OF w] g(2) have "shape g' = (10, 10)" by simp
  ultimately show "\<exists>s'. new_router lib kw s = Inr s' \<and> has_router s'"
    using g rw w by (simp add: new_router_def has_router_def has_dem_def)
qed

lemma total_run_one_step:
  assumes good: "serves lib" and pre: "\<And>s. P s \<Longrightarrow> has_router s"
  shows "total P (run_one_step lib) is_routed"
  unfolding total_def
proof (intro allI impI)
  fix s assume "P s"
  then have "has_router s" by (rule pre)
  then obtain g r0 where g: "mg s = Some g" "shape g = (10, 10)"
      "sized g ''topographic__elevation''" "fa s = Some r0"
    by (auto simp: has_dem_def has_router_def)
  obtain r ws where rw: "router_run lib r0 g = (r, ws)" by (cases "router_run lib r0 g")
  from good rw have "\<forall>w \<in> set ws. length (snd w) mod number_of_nodes g = 0"
    by (metis serves_def snd_conv)
  from write_fields_ok[OF this] obtain g' where w: "write_fields g ws = Inr g'" ..
  from good g(3) w rw have "routed g'"
    by (metis serves_def snd_conv)
  moreover from write_fields_shape[OF w] g(2) have "shape g' = (10, 10)" by simp
  ultimately show "\<exists>s'. run_one_step lib s = Inr s' \<and> is_routed s'"
    using g rw w by (simp add: run_one_step_def is_routed_def)
qed

lemma total_plt: "(\<And>s es. P (emit es s) = P s) \<Longrightarrow> total P (plt name) P"
  by (simp add: total_def plt_def)

lemma drainage_plot_Inr:
  "drainage_plot a t s = Inr s' \<longleftrightarrow>
     (\<exists>g. mg s = Some g \<and> plot_ready g a) \<and> s' = emit [Drainage_plot a t] s"
proof (cases "mg s")
  case None
  then show ?thesis by (simp add: drainage_plot_def)
next
  case (Some g)
  define name where "name = (case a of None \<Rightarrow> ''topographic__elevation'' | Some n \<Rightarrow> n)"
  have run: "drainage_plot a t s =
      (case at_node g name of
         None \<Rightarrow> Inl FieldError
       | Some z \<Rightarrow>
           if length z \<noteq> number_of_nodes g then Inl ValueError
           else (case at_node g ''flow__receiver_node'' of
                   None \<Rightarrow> Inl FieldError
                 | Some receivers \<Rightarrow>
                     if list_all (valid_index (number_of_nodes g)) receivers
                     then Inr (emit [Drainage_plot a t] s)
                     else Inl IndexError))"
    using Some by (simp add: drainage_plot_def name_def)
  have ready: "plot_ready g a =
      ((\<exists>z. at_node g name = Some z \<and> length z = number_of_nodes g) \<and>
       (\<exists>r. at_node g ''flow__receiver_node'' = Some r \<and>
            list_all (valid_index (number_of_nodes g)) r))"
    by (simp add: plot_ready_def sized_def receivers_ok_def name_def)
  show ?thesis
  proof (cases "at_node g name")
    case None
    with Some run ready show ?thesis by simp
  next
    case z: (Some z)
    show ?thesis
    proof (cases "at_node g ''flow__receiver_node''")
      case None
      with Some run ready z show ?thesis by simp
    next
      case r: (Some r)
      with Some run ready z show ?thesis by auto
    qed
  qed
qed

lemma routed_plot_ready:
  "routed g \<Longrightarrow> plot_ready g None"
  "routed g \<Longrightarrow> plot_ready g (Some ''drainage_area'')"
  "routed g \<Longrightarrow> plot_ready g (Some ''surface_water__discharge'')"
  by (simp_all add: routed_def plot_ready_def)

lemma total_drainage_plot:
  assumes "\<And>s es. P (emit es s) = P s" and "\<And>s. P s \<Longrightarrow> \<exists>g. mg s = Some g \<and> plot_ready g a"
  shows "total P (drainage_plot a t) P"
  unfolding total_def
proof (intro allI impI)
  fix s assume p: "P s"
  from assms(2)[OF p] have "drainage_plot a t s = Inr (emit [Drainage_plot a t] s)"
    by (simp add: drainage_plot_Inr)
  with p assms(1) show "\<exists>s'. drainage_plot a t s = Inr s' \<and> P s'" by simp
qed

lemma is_routed_plot_ready:
  assumes "is_routed s"
  shows "\<exists>g. mg s = Some g \<and> plot_ready g None"
    and "\<exists>g. mg s = Some g \<and> plot_ready g (Some ''drainage_area'')"
    and "\<exists>g. mg s = Some g \<and> plot_ready g (Some ''surface_water__discharge'')"
  using assms by (auto simp: is_routed_def routed_plot_ready)

lemma total_print_number_of_core_nodes: "total is_routed print_number_of_core_nodes is_routed"
  by (auto simp: total_def print_number_of_core_nodes_def is_routed_def)

lemma total_print_drainage_area: "total is_routed print_drainage_area is_routed"
  unfolding total_def
proof (intro allI impI)
  fix s :: "'a globals"
  assume d: "is_routed s"
  then obtain g a where g: "mg s = Some g" "shape g = (10, 10)"
      "at_node g ''drainage_area'' = Some a" "length a = number_of_nodes g"
    by (auto simp: is_routed_def routed_def sized_def)
  from g(2,4) have "length a = fst (shape g) * snd (shape g)" by (simp add: number_of_nodes_def)
  from reshape_ok[OF this] obtain Z where "reshape a (shape g) = Inr Z" by blast
  with g d show "\<exists>s'. print_drainage_area s = Inr s' \<and> is_routed s'"
    by (simp add: print_drainage_area_def)
qed

lemma total_assign_rain: "total is_routed (assign_rain lib) is_rained"
  unfolding total_def
proof (intro allI impI)
  fix s :: "'a globals"
  assume d: "is_routed s"
  then obtain g where g: "mg s = Some g" "shape g = (10, 10)"
    by (auto simp: is_routed_def)
  from g(2) have n: "number_of_nodes g = 100" by (rule number_of_nodes_10)
  let ?a = "np_shift 1 (np_scale 5 (np_random_rand lib 100))"
  have "length ?a = 100" by (simp add: np_shift_def np_scale_def np_random_rand_def)
  moreover have "is_routed (s\<lparr>rain := Some ?a\<rparr>)"
    using d by (simp add: is_routed_def)
  ultimately show "\<exists>s'. assign_rain lib s = Inr s' \<and> is_rained s'"
    using g n by (simp add: assign_rain_def is_rained_def)
qed

lemma total_imshow_rain: "total is_rained imshow_rain is_rained"
  unfolding total_def
proof (intro allI impI)
  fix s :: "'a globals"
  assume r: "is_rained s"
  then obtain g a where g: "mg s = Some g" "shape g = (10, 10)" "rain s = Some a" "length a = 100"
    by (auto simp: is_rained_def is_routed_def)
  then obtain R where "reshape a (shape g) = Inr R"
    using reshape_ok[of a "shape g"] by auto
  with g r show "\<exists>s'. imshow_rain s = Inr s' \<and> is_rained s'"
    by (simp add: imshow_rain_def)
qed

lemma total_add_rain: "total is_rained add_rain is_routed"
  unfolding total_def
proof (intro allI impI)
  fix s :: "'a globals"
  assume r: "is_rained s"
  then obtain g a where g: "mg s = Some g" "shape g = (10, 10)" "routed g" "fa s \<noteq> None"
      "rain s = Some a" "length a = 100"
    by (auto simp: is_rained_def is_routed_def)
  from g(2) have n: "number_of_nodes g = 100" by (rule number_of_nodes_10)
  let ?g' = "g\<lparr>at_node := (at_node g)(''water__unit_flux_in'' \<mapsto> a)\<rparr>"
  from n g(6) have af: "add_field g ''water__unit_flux_in'' a True = Inr ?g'"
    by (simp add: add_field_def set_field_def)
  have "routed ?g'" using g(3)
    by (simp add: routed_def sized_def receivers_ok_def number_of_nodes_def)
  moreover have "shape ?g' = (10, 10)" using g(2) by simp
  ultimately show "\<exists>s'. add_rain s = Inr s' \<and> is_routed s'"
    using g af by (simp add: add_rain_def is_routed_def)
qed

lemma total_cell_2: "total P (exec cell_2) has_dem"
proof -
  have "total P (exec ([new_grid (10, 10), add_elevation] @ [call_surf_plot None (Some ''Grid 1'')]))
          has_dem"
    by (rule total_append total_setup total_Cons total_call_surf_plot total_Nil | assumption)+
  then show ?thesis by (simp add: cell_2_def)
qed

lemma total_cell_3: "serves lib \<Longrightarrow> total has_dem (exec (cell_3 lib)) has_router"
  unfolding cell_3_def
  by (rule total_Cons total_Nil total_new_router | simp add: pred_weaken)+

lemma total_cell_4: "serves lib \<Longrightarrow> total has_router (exec (cell_4 lib)) is_routed"
  unfolding cell_4_def
  by (rule total_Cons total_Nil total_run_one_step | simp add: pred_weaken)+

lemma total_cell_5: "total is_routed (exec cell_5) is_routed"
  unfolding cell_5_def
  by (rule total_Cons total_Nil total_plt total_drainage_plot
      | simp add: pred_weaken is_routed_plot_ready)+

lemma total_cell_6: "total is_routed (exec cell_6) is_routed"
  unfolding cell_6_def
  by (rule total_Cons total_Nil total_plt total_drainage_plot
      | simp add: pred_weaken is_routed_plot_ready)+

lemma total_cell_7: "total is_routed (exec cell_7) is_routed"
  unfolding cell_7_def
  by (rule total_Cons total_Nil total_print_drainage_area | simp)+

lemma total_cell_8: "total is_routed (exec cell_8) is_routed"
  unfolding cell_8_def
  by (rule total_Cons total_Nil total_print_number_of_core_nodes | simp)+

lemma total_cell_9: "total is_routed (exec (cell_9 lib)) is_routed"
  unfolding cell_9_def
  by (rule total_Cons total_Nil total_assign_rain total_imshow_rain total_plt total_add_rain
      | simp)+

lemma total_cell_10: "serves lib \<Longrightarrow> total is_routed (exec (cell_10 lib)) is_routed"
  unfolding cell_10_def
  by (rule total_Cons total_Nil total_run_one_step total_plt total_drainage_plot
      | simp add: pred_weaken is_routed_plot_ready)+

lemma total_routing_cell:
  assumes "serves lib"
  shows "total P (exec (routing_cell lib metric)) is_routed"
proof -
  have "total P (exec ([new_grid (10, 10), add_elevation] @
          [new_router lib [(''surface'', Str ''topographic__elevation''), (''flow_metric'', Str metric)],
           run_one_step lib, plt ''figure'',
           drainage_plot (Some ''surface_water__discharge'') (Some ''Discharge'')])) is_routed"
    by (rule total_append total_setup total_Cons total_Nil total_new_router total_run_one_step
        total_plt total_drainage_plot assms
        | simp add: pred_weaken is_routed_plot_ready)+
  then show ?thesis by (simp add: routing_cell_def)
qed

lemma total_notebook:
  assumes good: "serves lib"
  shows "total P (exec (notebook lib)) is_routed"
  unfolding notebook_def
  by (rule total_append total_cell_2 total_cell_3 total_cell_4 total_cell_5 total_cell_6
      total_cell_7 total_cell_8 total_cell_9 total_cell_10 total_routing_cell good)+

lemma notebook_runs:
  fixes lib :: "'r lib"
  assumes "serves lib"
  shows "\<exists>s. exec (notebook lib) init = Inr s"
proof -
  from total_notebook[OF assms, of "\<lambda>s. True"]
  have "\<exists>s. exec (notebook lib) (init :: 'r globals) = Inr s \<and> is_routed s"
    by (simp add: total_def)
  then show ?thesis by blast
qed

lemma serves_demo_lib: "serves demo_lib"
  unfolding serves_def
proof (intro conjI allI impI)
  fix kw g
  show "\<forall>w \<in> set (snd (router_init demo_lib kw g)). length (snd w) mod number_of_nodes g = 0"
    by (simp add: demo_lib_def)
next
  fix r g
  show "\<forall>w \<in> set (snd (router_run demo_lib r g)). length (snd w) mod number_of_nodes g = 0"
    by (simp add: demo_lib_def)
next
  fix kw g g'
  assume "sized g ''topographic__elevation''"
    and "write_fields g (snd (router_init demo_lib kw g)) = Inr g'"
  then show "sized g' ''topographic__elevation''"
    by (auto simp: demo_lib_def thn_eq_Inr set_field_Inr sized_def number_of_nodes_def)
next
  fix r g g'
  assume "sized g ''topographic__elevation''"
    and "write_fields g (snd (router_run demo_lib r g)) = Inr g'"
  then show "routed g'"
    by (auto simp: demo_lib_def thn_eq_Inr set_field_Inr sized_def routed_def receivers_ok_def
        number_of_nodes_def list_all_iff valid_index_def)
qed

lemma demo_runs: "\<exists>s. exec (notebook demo_lib) init = Inr s"
  using serves_demo_lib by (rule notebook_runs)

section \<open>The log of every run\<close>

lemma on_grid10_emit [simp]: "on_grid10 (emit es s) = on_grid10 s"
  by (simp add: on_grid10_def)

lemma logs_new_grid: "logs (new_grid (10, 10)) [New_grid (10, 10)]"
  by (auto simp: logs_def new_grid_def on_grid10_def RasterModelGrid_def)

lemma logs_add_elevation: "logs add_elevation [Add_field ''topographic__elevation'' False]"
  by (auto simp: logs_def add_elevation_def thn_eq_Inr on_grid10_def dest: add_field_shape)

lemma logs_call_surf_plot: "logs (call_surf_plot a b) surf_plot_calls"
  by (auto simp: logs_def call_surf_plot_def thn_eq_Inr on_grid10_def surf_plot_calls_def)

lemma logs_new_router: "logs (new_router lib kw) [New_router kw]"
  by (auto simp: logs_def new_router_def thn_eq_Inr case_prod_beta on_grid10_def
      dest: write_fields_shape)

lemma logs_run_one_step: "logs (run_one_step lib) [Router_call ''run_one_step'' []]"
  by (auto simp: logs_def run_one_step_def thn_eq_Inr case_prod_beta on_grid10_def
      dest: write_fields_shape)

lemma logs_plt: "logs (plt name) [Plt name]"
  by (auto simp: logs_def plt_def)

lemma logs_drainage_plot: "logs (drainage_plot a b) [Drainage_plot a b]"
  by (auto simp: logs_def drainage_plot_Inr)

lemma logs_print_drainage_area: "logs print_drainage_area [Print ''drainage_area'']"
  by (auto simp: logs_def print_drainage_area_def thn_eq_Inr split: option.splits)

lemma logs_print_number_of_core_nodes:
  "logs print_number_of_core_nodes [Print ''number_of_core_nodes'']"
  by (auto simp: logs_def print_number_of_core_nodes_def thn_eq_Inr)

lemma logs_assign_rain: "logs (assign_rain lib) [Random_rand 100]"
  by (auto simp: logs_def assign_rain_def thn_eq_Inr on_grid10_def number_of_nodes_def)

lemma logs_imshow_rain: "logs imshow_rain [Plt ''imshow'']"
  by (auto simp: logs_def imshow_rain_def thn_eq_Inr)

lemma logs_add_rain: "logs add_rain [Add_field ''water__unit_flux_in'' True]"
  by (auto simp: logs_def add_rain_def thn_eq_Inr on_grid10_def dest: add_field_shape)

lemma logs_exec_take:
  assumes "list_all2 logs fs ess"
  shows "on_grid10 s \<Longrightarrow> exec (take k fs) s = Inr s' \<Longrightarrow>
         on_grid10 s' \<and> calls s' = calls s @ concat (take k ess)"
  using assms
proof (induction fs ess arbitrary: k s rule: list_all2_induct)
  case Nil
  then show ?case by simp
next
  case (Cons f fs es ess)
  show ?case
  proof (cases k)
    case 0
    with Cons.prems show ?thesis by simp
  next
    case (Suc j)
    with Cons.prems(2) obtain s1 where a: "f s = Inr s1" and b: "exec (take j fs) s1 = Inr s'"
      by (auto simp: thn_eq_Inr)
    from Cons.hyps(1) have "on_grid10 s \<longrightarrow> f s = Inr s1 \<longrightarrow> on_grid10 s1 \<and> calls s1 = calls s @ es"
      unfolding logs_def by blast
    with Cons.prems(1) a have s1: "on_grid10 s1" and c1: "calls s1 = calls s @ es"
      by blast+
    from Cons.IH[OF s1 b] have s': "on_grid10 s'" and c': "calls s' = calls s1 @ concat (take j ess)"
      by blast+
    have "take k (es # ess) = es # take j ess" using Suc by simp
    then have "calls s @ concat (take k (es # ess)) = (calls s @ es) @ concat (take j ess)"
      by simp
    with c1 c' have "calls s' = calls s @ concat (take k (es # ess))" by simp
    with s' show ?thesis ..
  qed
qed

lemma logs_notebook: "list_all2 logs (notebook lib) notebook_events"
  by (simp add: notebook_def cell_2_def cell_3_def cell_4_def cell_5_def cell_6_def cell_7_def
      cell_8_def cell_9_def cell_10_def routing_cell_def notebook_events_def routing_events_def
      logs_new_grid logs_add_elevation logs_call_surf_plot logs_new_router logs_run_one_step
      logs_plt logs_drainage_plot logs_print_drainage_area logs_print_number_of_core_nodes
      logs_assign_rain logs_imshow_rain logs_add_rain)

lemma length_notebook: "length (notebook lib) = 62"
  by (simp add: notebook_def cell_2_def cell_3_def cell_4_def cell_5_def cell_6_def cell_7_def
      cell_8_def cell_9_def cell_10_def routing_cell_def)

lemma length_notebook_events: "length notebook_events = 62"
  by (simp add: notebook_events_def routing_events_def)

lemma calls_prefix:
  assumes "exec (take k (notebook lib)) init = Inr s"
  shows "calls s = concat (take k notebook_events)" and "on_grid10 s"
proof -
  have "on_grid10 init" by (simp add: on_grid10_def init_def)
  from logs_exec_take[OF logs_notebook this assms]
  show "calls s = concat (take k notebook_events)" and "on_grid10 s"
    by (simp_all add: init_def)
qed

lemma calls_complete:
  assumes "exec (notebook lib) init = Inr s"
  shows "calls s = notebook_calls"
proof -
  from assms have "exec (take 62 (notebook lib)) init = Inr s"
    by (simp add: length_notebook)
  from calls_prefix(1)[OF this] show ?thesis
    by (simp add: notebook_calls_def length_notebook_events)
qed

section \<open>The claims about the calls the notebook makes\<close>

lemma demonstrated_notebook_calls:
  "demonstrated notebook_calls =
     [''D8'', ''D4'', ''Rho8'', ''Rho4'', ''Quinn'', ''Freeman'', ''Holmgren'', ''Dinf'']"
  by (simp add: notebook_calls_def notebook_events_def routing_events_def surf_plot_calls_def)

lemma router_calls_notebook_calls:
  "router_calls notebook_calls = replicate 9 (''run_one_step'', [])"
  by (simp add: notebook_calls_def notebook_events_def routing_events_def surf_plot_calls_def
      numeral_eq_Suc)

lemma grid_setup_notebook_calls:
  "grid_setup notebook_calls =
     concat (replicate 8 [New_grid (10, 10), Add_field ''topographic__elevation'' False])"
  by (simp add: notebook_calls_def notebook_events_def routing_events_def surf_plot_calls_def
      numeral_eq_Suc)

lemma session_window:
  assumes run: "exec [new_router lib kw, run_one_step lib, plt ''figure'', drainage_plot a t] s0 = Inr s4"
    and kw: "map_of kw ''flow_metric'' = Some (Str m)"
  shows "session lib s0 s4 m"
proof -
  from run obtain s1 s2 s3 where
    a: "new_router lib kw s0 = Inr s1" and b: "run_one_step lib s1 = Inr s2" and
    c: "plt ''figure'' s2 = Inr s3" and d: "drainage_plot a t s3 = Inr s4"
    by (auto simp: thn_eq_Inr)
  from a obtain g0 where g0: "mg s0 = Some g0"
    by (auto simp: new_router_def thn_eq_Inr)
  obtain r0 ws0 where i: "router_init lib kw g0 = (r0, ws0)" by (cases "router_init lib kw g0")
  from a g0 i obtain g1 where g1: "write_fields g0 ws0 = Inr g1"
    and s1: "s1 = emit [New_router kw] (s0\<lparr>mg := Some g1, fa := Some r0\<rparr>)"
    by (auto simp: new_router_def thn_eq_Inr)
  obtain r1 ws1 where r: "router_run lib r0 g1 = (r1, ws1)" by (cases "router_run lib r0 g1")
  from b s1 r obtain g2 where g2: "write_fields g1 ws1 = Inr g2"
    and s2: "s2 = emit [Router_call ''run_one_step'' []] (s1\<lparr>mg := Some g2, fa := Some r1\<rparr>)"
    by (auto simp: run_one_step_def thn_eq_Inr)
  from c have s3: "s3 = emit [Plt ''figure''] s2" by (simp add: plt_def)
  from d have ready: "\<exists>g. mg s3 = Some g \<and> plot_ready g a" and s4: "s4 = emit [Drainage_plot a t] s3"
    by (simp_all add: drainage_plot_Inr)
  have m4: "mg s4 = Some g2" and f4: "fa s4 = Some r1"
    by (simp_all add: s4 s3 s2)
  have c4: "calls s4 =
      calls s0 @ [New_router kw, Router_call ''run_one_step'' [], Plt ''figure'', Drainage_plot a t]"
    by (simp add: s4 s3 s2 s1)
  from ready have p: "plot_ready g2 a" by (simp add: s3 s2)
  from kw g0 i g1 r g2 m4 f4 c4 p show ?thesis
    unfolding session_def by blast
qed

lemma session_at:
  assumes run: "exec (notebook lib) init = Inr s"
    and window: "take 4 (drop k (notebook lib)) =
       [new_router lib kw, run_one_step lib, plt ''figure'', drainage_plot a t]"
    and kw: "map_of kw ''flow_metric'' = Some (Str m)"
  shows "\<exists>k s0 s4. exec (take k (notebook lib)) init = Inr s0 \<and>
           exec (take (k + 4) (notebook lib)) init = Inr s4 \<and> session lib s0 s4 m"
proof -
  from exec_window_runs[OF run, of k 4] obtain s0 s4 where
    a: "exec (take k (notebook lib)) init = Inr s0" and
    b: "exec (take 4 (drop k (notebook lib))) s0 = Inr s4" and
    c: "exec (take (k + 4) (notebook lib)) init = Inr s4"
    by blast
  from b window have "exec [new_router lib kw, run_one_step lib, plt ''figure'', drainage_plot a t] s0 = Inr s4"
    by simp
  from session_window[OF this kw] a c show ?thesis by blast
qed

lemmas notebook_unfold =
  notebook_def cell_2_def cell_3_def cell_4_def cell_5_def cell_6_def cell_7_def
  cell_8_def cell_9_def cell_10_def routing_cell_def

lemma window_D8:
  "take 4 (drop 4 (notebook lib)) =
     [new_router lib
        [(''surface'', Str ''topographic__elevation''),
         (''flow_metric'', Str ''D8''),
         (''update_flow_depressions'', Bool True),
         (''runoff_rate'', PyNone),
         (''depression_handler'', Str ''fill'')],
      run_one_step lib, plt ''figure'', drainage_plot None None]"
  by (simp add: notebook_unfold)

lemma window_routing:
  "take 4 (drop 22 (notebook lib)) =
     [new_router lib [(''surface'', Str ''topographic__elevation''), (''flow_metric'', Str ''D4'')],
      run_one_step lib, plt ''figure'',
      drainage_plot (Some ''surface_water__discharge'') (Some ''Discharge'')]"
  "take 4 (drop 28 (notebook lib)) =
     [new_router lib [(''surface'', Str ''topographic__elevation''), (''flow_metric'', Str ''Rho8'')],
      run_one_step lib, plt ''figure'',
      drainage_plot (Some ''surface_water__discharge'') (Some ''Discharge'')]"
  "take 4 (drop 34 (notebook lib)) =
     [new_router lib [(''surface'', Str ''topographic__elevation''), (''flow_metric'', Str ''Rho4'')],
      run_one_step lib, plt ''figure'',
      drainage_plot (Some ''surface_water__discharge'') (Some ''Discharge'')]"
  "take 4 (drop 40 (notebook lib)) =
     [new_router lib [(''surface'', Str ''topographic__elevation''), (''flow_metric'', Str ''Quinn'')],
      run_one_step lib, plt ''figure'',
      drainage_plot (Some ''surface_water__discharge'') (Some ''Discharge'')]"
  "take 4 (drop 46 (notebook lib)) =
     [new_router lib [(''surface'', Str ''topographic__elevation''), (''flow_metric'', Str ''Freeman'')],
      run_one_step lib, plt ''figure'',
      drainage_plot (Some ''surface_water__discharge'') (Some ''Discharge'')]"
  "take 4 (drop 52 (notebook lib)) =
     [new_router lib [(''surface'', Str ''topographic__elevation''), (''flow_metric'', Str ''Holmgren'')],
      run_one_step lib, plt ''figure'',
      drainage_plot (Some ''surface_water__discharge'') (Some ''Discharge'')]"
  "take 4 (drop 58 (notebook lib)) =
     [new_router lib [(''surface'', Str ''topographic__elevation''), (''flow_metric'', Str ''Dinf'')],
      run_one_step lib, plt ''figure'',
      drainage_plot (Some ''surface_water__discharge'') (Some ''Discharge'')]"
  by (simp_all add: notebook_unfold)

text \<open>
  Claim C1. For each of the eight flow-routing variants the specification names (D8, D4, Rho8,
  Rho4, Quinn, Freeman, Holmgren, D-infinity) the notebook constructs a
  \<^verbatim>\<open>PriorityFloodFlowRouter\<close> whose \<^verbatim>\<open>flow_metric\<close> is that variant's string (\<^verbatim>\<open>Dinf\<close> for
  D-infinity), calls its \<^verbatim>\<open>run_one_step\<close> and then renders a \<^verbatim>\<open>drainage_plot\<close>. In every run of
  the notebook to its end, with whatever router, the variants the call log demonstrates are
  exactly the eight of the list, in the list's order; and for each of them there are four
  consecutive statements of the notebook across which the router with that string is
  constructed on the notebook's grid, run on it, and plotted from the fields the run left.
\<close>

theorem notebook_demonstrates_variants:
  assumes "exec (notebook lib) init = Inr s"
  shows "demonstrated (calls s) = map flow_metric_name spec_variants \<and>
         (\<forall>v \<in> set spec_variants.
            \<exists>k s0 s4. exec (take k (notebook lib)) init = Inr s0 \<and>
                       exec (take (k + 4) (notebook lib)) init = Inr s4 \<and>
                       session lib s0 s4 (flow_metric_name v))"
proof
  from calls_complete[OF assms]
  show "demonstrated (calls s) = map flow_metric_name spec_variants"
    by (simp add: demonstrated_notebook_calls spec_variants_def flow_metric_name_def)
next
  note at = session_at[OF assms]
  have "\<exists>k s0 s4. exec (take k (notebook lib)) init = Inr s0 \<and>
          exec (take (k + 4) (notebook lib)) init = Inr s4 \<and> session lib s0 s4 ''D8''"
    by (rule at[OF window_D8]) simp
  moreover have "\<exists>k s0 s4. exec (take k (notebook lib)) init = Inr s0 \<and>
          exec (take (k + 4) (notebook lib)) init = Inr s4 \<and> session lib s0 s4 ''D4''"
    by (rule at[OF window_routing(1)]) simp
  moreover have "\<exists>k s0 s4. exec (take k (notebook lib)) init = Inr s0 \<and>
          exec (take (k + 4) (notebook lib)) init = Inr s4 \<and> session lib s0 s4 ''Rho8''"
    by (rule at[OF window_routing(2)]) simp
  moreover have "\<exists>k s0 s4. exec (take k (notebook lib)) init = Inr s0 \<and>
          exec (take (k + 4) (notebook lib)) init = Inr s4 \<and> session lib s0 s4 ''Rho4''"
    by (rule at[OF window_routing(3)]) simp
  moreover have "\<exists>k s0 s4. exec (take k (notebook lib)) init = Inr s0 \<and>
          exec (take (k + 4) (notebook lib)) init = Inr s4 \<and> session lib s0 s4 ''Quinn''"
    by (rule at[OF window_routing(4)]) simp
  moreover have "\<exists>k s0 s4. exec (take k (notebook lib)) init = Inr s0 \<and>
          exec (take (k + 4) (notebook lib)) init = Inr s4 \<and> session lib s0 s4 ''Freeman''"
    by (rule at[OF window_routing(5)]) simp
  moreover have "\<exists>k s0 s4. exec (take k (notebook lib)) init = Inr s0 \<and>
          exec (take (k + 4) (notebook lib)) init = Inr s4 \<and> session lib s0 s4 ''Holmgren''"
    by (rule at[OF window_routing(6)]) simp
  moreover have "\<exists>k s0 s4. exec (take k (notebook lib)) init = Inr s0 \<and>
          exec (take (k + 4) (notebook lib)) init = Inr s4 \<and> session lib s0 s4 ''Dinf''"
    by (rule at[OF window_routing(7)]) simp
  ultimately show "\<forall>v \<in> set spec_variants.
            \<exists>k s0 s4. exec (take k (notebook lib)) init = Inr s0 \<and>
                       exec (take (k + 4) (notebook lib)) init = Inr s4 \<and>
                       session lib s0 s4 (flow_metric_name v)"
    by (simp add: spec_variants_def flow_metric_name_def)
qed

theorem notebook_demonstrates_variants_witness:
  "\<exists>s. exec (notebook demo_lib) init = Inr s \<and>
       demonstrated (calls s) =
         [''D8'', ''D4'', ''Rho8'', ''Rho4'', ''Quinn'', ''Freeman'', ''Holmgren'', ''Dinf''] \<and>
       ''D-infinity'' \<in> set spec_variants \<and>
       (\<exists>k s0 s4. exec (take k (notebook demo_lib)) init = Inr s0 \<and>
                  exec (take (k + 4) (notebook demo_lib)) init = Inr s4 \<and>
                  session demo_lib s0 s4 ''Dinf'')"
proof -
  from demo_runs obtain s where s: "exec (notebook demo_lib) init = Inr s" ..
  have v: "''D-infinity'' \<in> set spec_variants" by (simp add: spec_variants_def)
  from notebook_demonstrates_variants[OF s] v
  have "demonstrated (calls s) = map flow_metric_name spec_variants"
    and "\<exists>k s0 s4. exec (take k (notebook demo_lib)) init = Inr s0 \<and>
                  exec (take (k + 4) (notebook demo_lib)) init = Inr s4 \<and>
                  session demo_lib s0 s4 (flow_metric_name ''D-infinity'')"
    by blast+
  with s v show ?thesis
    by (intro exI[of _ s]) (simp add: spec_variants_def flow_metric_name_def)
qed

lemma set_router_calls: "((m, a) \<in> set (router_calls es)) = (Router_call m a \<in> set es)"
  by (induction es rule: router_calls.induct) auto

text \<open>
  Claim C2. The only method the notebook calls on a router object is \<^verbatim>\<open>run_one_step\<close>, always
  without arguments. However far the notebook runs, with whatever router, every method call
  on a router in its call log is \<^verbatim>\<open>run_one_step()\<close>; in a run to the end there are nine of
  them.
\<close>

theorem router_only_run_one_step:
  assumes "exec (take k (notebook lib)) init = Inr s"
  shows "(\<forall>c \<in> set (router_calls (calls s)). c = (''run_one_step'', [])) \<and>
         (length (notebook lib) \<le> k \<longrightarrow>
            router_calls (calls s) = replicate 9 (''run_one_step'', []))"
proof
  from calls_prefix(1)[OF assms] have c: "calls s = concat (take k notebook_events)" .
  show "\<forall>c \<in> set (router_calls (calls s)). c = (''run_one_step'', [])"
  proof
    fix c assume "c \<in> set (router_calls (calls s))"
    then have "Router_call (fst c) (snd c) \<in> set (concat (take k notebook_events))"
      using set_router_calls[of "fst c" "snd c" "calls s"] c by simp
    then have "Router_call (fst c) (snd c) \<in> set notebook_calls"
      unfolding notebook_calls_def by (auto dest: in_set_takeD)
    then have "c \<in> set (router_calls notebook_calls)"
      using set_router_calls[of "fst c" "snd c" notebook_calls] by simp
    then show "c = (''run_one_step'', [])"
      by (simp add: router_calls_notebook_calls)
  qed
  show "length (notebook lib) \<le> k \<longrightarrow>
          router_calls (calls s) = replicate 9 (''run_one_step'', [])"
  proof
    assume "length (notebook lib) \<le> k"
    then have "take k notebook_events = notebook_events"
      by (simp add: length_notebook length_notebook_events)
    with c have "calls s = notebook_calls" by (simp add: notebook_calls_def)
    then show "router_calls (calls s) = replicate 9 (''run_one_step'', [])"
      by (simp add: router_calls_notebook_calls)
  qed
qed

theorem router_only_run_one_step_witness:
  "\<exists>s. exec (take 62 (notebook demo_lib)) init = Inr s \<and>
       (''run_one_step'', []) \<in> set (router_calls (calls s)) \<and>
       length (notebook demo_lib) \<le> 62 \<and>
       router_calls (calls s) = replicate 9 (''run_one_step'', [])"
proof -
  from demo_runs obtain s where "exec (notebook demo_lib) init = Inr s" ..
  then have s: "exec (take 62 (notebook demo_lib)) init = Inr s"
    by (simp add: length_notebook)
  have l: "length (notebook demo_lib) \<le> 62" by (simp add: length_notebook)
  from router_only_run_one_step[OF s] l
  have "router_calls (calls s) = replicate 9 (''run_one_step'', [])" by blast
  with s l show ?thesis by (intro exI[of _ s]) simp
qed

section \<open>The elevation on the notebook's grids\<close>

lemma setup_calls:
  assumes "exec [new_grid (10, 10), add_elevation] s0 = Inr s2"
  shows "calls s2 = calls s0 @ [New_grid (10, 10), Add_field ''topographic__elevation'' False]"
  using assms by (auto simp: new_grid_def add_elevation_def thn_eq_Inr)

lemma setup_windows:
  "take 2 (drop 0 (notebook lib)) = [new_grid (10, 10), add_elevation]"
  "take 2 (drop 20 (notebook lib)) = [new_grid (10, 10), add_elevation]"
  "take 2 (drop 26 (notebook lib)) = [new_grid (10, 10), add_elevation]"
  "take 2 (drop 32 (notebook lib)) = [new_grid (10, 10), add_elevation]"
  "take 2 (drop 38 (notebook lib)) = [new_grid (10, 10), add_elevation]"
  "take 2 (drop 44 (notebook lib)) = [new_grid (10, 10), add_elevation]"
  "take 2 (drop 50 (notebook lib)) = [new_grid (10, 10), add_elevation]"
  "take 2 (drop 56 (notebook lib)) = [new_grid (10, 10), add_elevation]"
  by (simp_all add: notebook_unfold)

lemma setup_at:
  assumes run: "exec (notebook lib) init = Inr s"
    and window: "take 2 (drop k (notebook lib)) = [new_grid (10, 10), add_elevation]"
  shows "\<exists>s0 s2 g z.
           exec (take k (notebook lib)) init = Inr s0 \<and>
           exec (take (k + 2) (notebook lib)) init = Inr s2 \<and>
           calls s2 = calls s0 @ [New_grid (10, 10), Add_field ''topographic__elevation'' False] \<and>
           mg s2 = Some g \<and> shape g = (10, 10) \<and> number_of_nodes g = 100 \<and>
           at_node g ''topographic__elevation'' = Some z \<and> length z = 100 \<and>
           (\<forall>n < 100. z ! n = 3 * (x_of_node g ! n)\<^sup>2 + (y_of_node g ! n)\<^sup>2)"
proof -
  let ?z = "map (\<lambda>n. 3 * (real (n mod 10))\<^sup>2 + (real (n div 10))\<^sup>2) [0 ..< 100]"
  from exec_window_runs[OF run, of k 2] window obtain s0 s2 where
    a: "exec (take k (notebook lib)) init = Inr s0" and
    b: "exec [new_grid (10, 10), add_elevation] s0 = Inr s2" and
    c: "exec (take (k + 2) (notebook lib)) init = Inr s2"
    by auto
  from exec_setup[of s0] b obtain g where g:
    "mg s2 = Some g" "shape g = (10, 10)"
    "x_of_node g = x_of_node (RasterModelGrid (10, 10))"
    "y_of_node g = y_of_node (RasterModelGrid (10, 10))"
    "at_node g ''topographic__elevation'' = Some ?z"
    by auto
  have n: "number_of_nodes g = 100" using g(2) by (rule number_of_nodes_10)
  have l: "length ?z = 100" by simp
  have f: "\<forall>n < 100. ?z ! n = 3 * (x_of_node g ! n)\<^sup>2 + (y_of_node g ! n)\<^sup>2"
    using g(3,4) by (simp add: dem_nth raster_x raster_y del: upt_rec_numeral)
  from a c setup_calls[OF b] g(1,2,5) n l f show ?thesis by blast
qed

text \<open>
  Claim C3. Every grid the notebook constructs is a 10-by-10 raster grid, and on each the
  field \<^verbatim>\<open>topographic__elevation\<close> is assigned so that its value at every node \<open>n\<close> is
  \<open>3 x(n)\<^sup>2 + y(n)\<^sup>2\<close>. In every run of the notebook to its end, with whatever router, the
  log shows eight grid constructions, each of shape \<open>(10, 10)\<close> and each followed by the store
  of the elevation; they are made by the statements at positions 0, 20, 26, 32, 38, 44, 50 and
  56 of the notebook, and after the statement that follows each of them the notebook's grid is
  10 by 10, has 100 nodes, and holds an elevation with the stated value node by node.
\<close>

theorem elevation_field_assigned:
  assumes "exec (notebook lib) init = Inr s"
  shows "grid_setup (calls s) =
           concat (replicate 8 [New_grid (10, 10), Add_field ''topographic__elevation'' False]) \<and>
         (\<forall>k \<in> set [0, 20, 26, 32, 38, 44, 50, 56].
            \<exists>s0 s2 g z.
              exec (take k (notebook lib)) init = Inr s0 \<and>
              exec (take (k + 2) (notebook lib)) init = Inr s2 \<and>
              calls s2 = calls s0 @ [New_grid (10, 10), Add_field ''topographic__elevation'' False] \<and>
              mg s2 = Some g \<and> shape g = (10, 10) \<and> number_of_nodes g = 100 \<and>
              at_node g ''topographic__elevation'' = Some z \<and> length z = 100 \<and>
              (\<forall>n < 100. z ! n = 3 * (x_of_node g ! n)\<^sup>2 + (y_of_node g ! n)\<^sup>2))"
proof
  from calls_complete[OF assms]
  show "grid_setup (calls s) =
          concat (replicate 8 [New_grid (10, 10), Add_field ''topographic__elevation'' False])"
    by (simp add: grid_setup_notebook_calls)
next
  note at = setup_at[OF assms]
  from at[OF setup_windows(1)] at[OF setup_windows(2)] at[OF setup_windows(3)]
    at[OF setup_windows(4)] at[OF setup_windows(5)] at[OF setup_windows(6)]
    at[OF setup_windows(7)] at[OF setup_windows(8)]
  show "\<forall>k \<in> set [0, 20, 26, 32, 38, 44, 50, 56].
            \<exists>s0 s2 g z.
              exec (take k (notebook lib)) init = Inr s0 \<and>
              exec (take (k + 2) (notebook lib)) init = Inr s2 \<and>
              calls s2 = calls s0 @ [New_grid (10, 10), Add_field ''topographic__elevation'' False] \<and>
              mg s2 = Some g \<and> shape g = (10, 10) \<and> number_of_nodes g = 100 \<and>
              at_node g ''topographic__elevation'' = Some z \<and> length z = 100 \<and>
              (\<forall>n < 100. z ! n = 3 * (x_of_node g ! n)\<^sup>2 + (y_of_node g ! n)\<^sup>2)"
    by simp
qed

theorem elevation_field_assigned_witness:
  "\<exists>s. exec (notebook demo_lib) init = Inr s \<and>
       grid_setup (calls s) =
         concat (replicate 8 [New_grid (10, 10), Add_field ''topographic__elevation'' False]) \<and>
       (56::nat) \<in> set [0, 20, 26, 32, 38, 44, 50, 56] \<and>
       (\<exists>s0 s2 g z.
          exec (take 56 (notebook demo_lib)) init = Inr s0 \<and>
          exec (take (56 + 2) (notebook demo_lib)) init = Inr s2 \<and>
          calls s2 = calls s0 @ [New_grid (10, 10), Add_field ''topographic__elevation'' False] \<and>
          mg s2 = Some g \<and> shape g = (10, 10) \<and>
          at_node g ''topographic__elevation'' = Some z \<and>
          (99::nat) < 100 \<and> z ! 99 = 3 * (x_of_node g ! 99)\<^sup>2 + (y_of_node g ! 99)\<^sup>2)"
proof -
  from demo_runs obtain s where s: "exec (notebook demo_lib) init = Inr s" ..
  have k: "(56::nat) \<in> set [0, 20, 26, 32, 38, 44, 50, 56]" by simp
  have lt: "(99::nat) < 100" by simp
  note t = elevation_field_assigned[OF s]
  from t have a: "grid_setup (calls s) =
         concat (replicate 8 [New_grid (10, 10), Add_field ''topographic__elevation'' False])" ..
  from t k obtain s0 s2 g z where b:
    "exec (take 56 (notebook demo_lib)) init = Inr s0"
    "exec (take (56 + 2) (notebook demo_lib)) init = Inr s2"
    "calls s2 = calls s0 @ [New_grid (10, 10), Add_field ''topographic__elevation'' False]"
    "mg s2 = Some g" "shape g = (10, 10)" "at_node g ''topographic__elevation'' = Some z"
    "\<forall>n < 100. z ! n = 3 * (x_of_node g ! n)\<^sup>2 + (y_of_node g ! n)\<^sup>2"
    by blast
  from b(7) lt have "z ! 99 = 3 * (x_of_node g ! 99)\<^sup>2 + (y_of_node g ! 99)\<^sup>2" by blast
  with s a k lt b(1-6) show ?thesis by blast
qed

section \<open>The normalisation in \<^verbatim>\<open>surf_plot\<close>\<close>

lemma keeps_surfaces_new_grid: "keeps_surfaces (new_grid sh)"
  by (auto simp: keeps_surfaces_def new_grid_def)

lemma keeps_surfaces_add_elevation: "keeps_surfaces add_elevation"
  by (auto simp: keeps_surfaces_def add_elevation_def thn_eq_Inr)

lemma keeps_surfaces_new_router: "keeps_surfaces (new_router lib kw)"
  by (auto simp: keeps_surfaces_def new_router_def thn_eq_Inr case_prod_beta)

lemma keeps_surfaces_run_one_step: "keeps_surfaces (run_one_step lib)"
  by (auto simp: keeps_surfaces_def run_one_step_def thn_eq_Inr case_prod_beta)

lemma keeps_surfaces_plt: "keeps_surfaces (plt name)"
  by (auto simp: keeps_surfaces_def plt_def)

lemma keeps_surfaces_drainage_plot: "keeps_surfaces (drainage_plot a b)"
  by (auto simp: keeps_surfaces_def drainage_plot_Inr)

lemma keeps_surfaces_print_drainage_area: "keeps_surfaces print_drainage_area"
  by (auto simp: keeps_surfaces_def print_drainage_area_def thn_eq_Inr split: option.splits)

lemma keeps_surfaces_print_number_of_core_nodes: "keeps_surfaces print_number_of_core_nodes"
  by (auto simp: keeps_surfaces_def print_number_of_core_nodes_def thn_eq_Inr)

lemma keeps_surfaces_assign_rain: "keeps_surfaces (assign_rain lib)"
  by (auto simp: keeps_surfaces_def assign_rain_def thn_eq_Inr)

lemma keeps_surfaces_imshow_rain: "keeps_surfaces imshow_rain"
  by (auto simp: keeps_surfaces_def imshow_rain_def thn_eq_Inr)

lemma keeps_surfaces_add_rain: "keeps_surfaces add_rain"
  by (auto simp: keeps_surfaces_def add_rain_def thn_eq_Inr)

lemma keeps_surfaces_exec:
  "\<forall>f \<in> set fs. keeps_surfaces f \<Longrightarrow> exec fs s = Inr s' \<Longrightarrow> surfaces s' = surfaces s"
proof (induction fs arbitrary: s)
  case Nil
  then show ?case by simp
next
  case (Cons f fs)
  from Cons.prems(2) obtain s1 where a: "f s = Inr s1" and b: "exec fs s1 = Inr s'"
    by (auto simp: thn_eq_Inr)
  from Cons.prems(1) a have "surfaces s1 = surfaces s" by (simp add: keeps_surfaces_def)
  moreover from Cons.prems(1) have "\<forall>f \<in> set fs. keeps_surfaces f" by simp
  from Cons.IH[OF this b] have "surfaces s' = surfaces s1" .
  ultimately show ?case by simp
qed

lemma keeps_surfaces_rest: "\<forall>f \<in> set (drop 3 (notebook lib)). keeps_surfaces f"
  by (simp add: notebook_unfold keeps_surfaces_new_grid keeps_surfaces_add_elevation
      keeps_surfaces_new_router keeps_surfaces_run_one_step keeps_surfaces_plt
      keeps_surfaces_drainage_plot keeps_surfaces_print_drainage_area
      keeps_surfaces_print_number_of_core_nodes keeps_surfaces_assign_rain
      keeps_surfaces_imshow_rain keeps_surfaces_add_rain)

lemma take_3_notebook:
  "take 2 (notebook lib) = [new_grid (10, 10), add_elevation]"
  "take 3 (notebook lib) =
     [new_grid (10, 10), add_elevation] @ [call_surf_plot None (Some ''Grid 1'')]"
  by (simp_all add: notebook_unfold)

lemma first_surface:
  fixes lib :: "'r lib"
  shows "\<exists>s2 g0 fig0 s3.
     exec (take 2 (notebook lib)) init = Inr s2 \<and> mg s2 = Some g0 \<and>
     surf_plot g0 None (Some ''Grid 1'') = Inr fig0 \<and>
     amin (fig_Z fig0) = Inr 0 \<and> amax (fig_Z fig0) = Inr 324 \<and>
     None \<notin> set (ravel (facecolors fig0)) \<and>
     exec (take 3 (notebook lib)) init = Inr s3 \<and> surfaces s3 = [fig0]"
proof -
  let ?i = "init :: 'r globals"
  from exec_setup[of ?i] obtain s2 g0 where g:
    "exec [new_grid (10, 10), add_elevation] ?i = Inr s2" "mg s2 = Some g0"
    "shape g0 = (10, 10)"
    "x_of_node g0 = x_of_node (RasterModelGrid (10, 10))"
    "y_of_node g0 = y_of_node (RasterModelGrid (10, 10))"
    "at_node g0 ''topographic__elevation'' =
       Some (map (\<lambda>n. 3 * (real (n mod 10))\<^sup>2 + (real (n div 10))\<^sup>2) [0 ..< 100])"
    by blast
  from surf_plot_dem[OF g(3,4,5,6), of "Some ''Grid 1''"] obtain fig0 where f:
    "surf_plot g0 None (Some ''Grid 1'') = Inr fig0"
    "amin (fig_Z fig0) = Inr 0" "amax (fig_Z fig0) = Inr 324"
    "None \<notin> set (ravel (facecolors fig0))"
    by blast
  have "\<forall>f \<in> set [new_grid (10, 10), add_elevation :: 'r globals \<Rightarrow> error + 'r globals].
          keeps_surfaces f"
    by (simp add: keeps_surfaces_new_grid keeps_surfaces_add_elevation)
  from keeps_surfaces_exec[OF this g(1)] have e: "surfaces s2 = []" by (simp add: init_def)
  let ?s3 = "emit surf_plot_calls (s2\<lparr>surfaces := surfaces s2 @ [fig0]\<rparr>)"
  have c: "call_surf_plot None (Some ''Grid 1'') s2 = Inr ?s3"
    using g(2) f(1) by (simp add: call_surf_plot_def surf_plot_calls_def)
  have "exec (take 3 (notebook lib)) ?i = Inr ?s3"
    unfolding take_3_notebook(2) exec_append using g(1) c by simp
  moreover have "surfaces ?s3 = [fig0]" using e by simp
  moreover have "exec (take 2 (notebook lib)) ?i = Inr s2"
    unfolding take_3_notebook(1) using g(1) .
  ultimately show ?thesis using g(2) f by blast
qed

lemma surfaces_of_prefix:
  assumes s3: "exec (take 3 (notebook lib)) init = Inr s3"
    and run: "exec (take k (notebook lib)) init = Inr s"
  shows "surfaces s = (if k < 3 then [] else surfaces s3)"
proof (cases "k < 3")
  case True
  then have "take k (notebook lib) = take k [new_grid (10, 10), add_elevation]"
    using take_3_notebook(1)[of lib] by (metis less_Suc_eq_le min.absorb1 numeral_3_eq_3
        numeral_2_eq_2 take_take)
  with run have r: "exec (take k [new_grid (10, 10), add_elevation]) init = Inr s" by simp
  have "\<forall>f \<in> set (take k [new_grid (10, 10), add_elevation :: 'a globals \<Rightarrow> error + 'a globals]).
          keeps_surfaces f"
    by (auto dest!: in_set_takeD simp: keeps_surfaces_new_grid keeps_surfaces_add_elevation)
  from keeps_surfaces_exec[OF this r] True show ?thesis by (simp add: init_def)
next
  case False
  then have k: "k = 3 + (k - 3)" by simp
  from run have "exec (take (3 + (k - 3)) (notebook lib)) init = Inr s" using k by simp
  with s3 have r: "exec (take (k - 3) (drop 3 (notebook lib))) s3 = Inr s"
    by (simp add: exec_window)
  have "\<forall>f \<in> set (take (k - 3) (drop 3 (notebook lib))). keeps_surfaces f"
    using keeps_surfaces_rest[of lib] by (meson in_set_takeD)
  from keeps_surfaces_exec[OF this r] False show ?thesis by simp
qed

text \<open>
  Claim C9. The gray levels in \<^verbatim>\<open>surf_plot\<close> are divided by \<^verbatim>\<open>Z.max() - Z.min()\<close>. Whenever
  \<^verbatim>\<open>surf_plot\<close> returns, that divisor is zero exactly when all entries of the plotted surface
  are equal, and a gray level is invalid exactly when the divisor is zero. In the notebook,
  with whatever router, the third statement plots the elevation \<open>3x\<^sup>2 + y\<^sup>2\<close> that the first
  two have put on the 10-by-10 grid, and it always returns: there the minimum is 0, the maximum
  is 324, and no gray level is invalid. However far the notebook runs, that is the only surface
  it has drawn.
\<close>

theorem surf_plot_divisor:
  fixes lib :: "'r lib"
  shows "(surf_plot g sa ta = Inr fig \<longrightarrow>
            (\<exists>lo hi. amin (fig_Z fig) = Inr lo \<and> amax (fig_Z fig) = Inr hi \<and>
               ((hi - lo = 0) =
                  (\<forall>a \<in> set (ravel (fig_Z fig)). \<forall>b \<in> set (ravel (fig_Z fig)). a = b)) \<and>
               ((None \<in> set (ravel (facecolors fig))) = (hi - lo = 0)))) \<and>
         (\<exists>s2 g0 fig0 s3.
            exec (take 2 (notebook lib)) init = Inr s2 \<and> mg s2 = Some g0 \<and>
            surf_plot g0 None (Some ''Grid 1'') = Inr fig0 \<and>
            amin (fig_Z fig0) = Inr 0 \<and> amax (fig_Z fig0) = Inr 324 \<and>
            None \<notin> set (ravel (facecolors fig0)) \<and>
            exec (take 3 (notebook lib)) init = Inr s3 \<and> surfaces s3 = [fig0] \<and>
            (\<forall>k s. exec (take k (notebook lib)) init = Inr s \<longrightarrow>
                   surfaces s = (if k < 3 then [] else [fig0])))"
proof (intro conjI impI)
  assume "surf_plot g sa ta = Inr fig"
  from surf_plot_Inr[OF this] obtain lo hi where f:
    "ravel (fig_Z fig) \<noteq> []" "amin (fig_Z fig) = Inr lo" "amax (fig_Z fig) = Inr hi"
    "facecolors fig = map (map (\<lambda>z. np_divide (z - lo) (hi - lo))) (fig_Z fig)"
    by blast
  from f(1,2,3) have lo: "lo = Min (set (ravel (fig_Z fig)))" and hi: "hi = Max (set (ravel (fig_Z fig)))"
    by (simp_all add: amin_def amax_def)
  have a: "(hi - lo = 0) =
      (\<forall>a \<in> set (ravel (fig_Z fig)). \<forall>b \<in> set (ravel (fig_Z fig)). a = b)"
    unfolding lo hi using f(1) by (rule Max_eq_Min_iff)
  have b: "(None \<in> set (ravel (facecolors fig))) = (hi - lo = 0)"
    unfolding f(4) ravel_map_map using f(1) by (rule invalid_color_iff)
  from f(2,3) a b
  show "\<exists>lo hi. amin (fig_Z fig) = Inr lo \<and> amax (fig_Z fig) = Inr hi \<and>
               ((hi - lo = 0) =
                  (\<forall>a \<in> set (ravel (fig_Z fig)). \<forall>b \<in> set (ravel (fig_Z fig)). a = b)) \<and>
               ((None \<in> set (ravel (facecolors fig))) = (hi - lo = 0))"
    by blast
next
  from first_surface[of lib] obtain s2 g0 fig0 s3 where f:
    "exec (take 2 (notebook lib)) init = Inr s2" "mg s2 = Some g0"
    "surf_plot g0 None (Some ''Grid 1'') = Inr fig0"
    "amin (fig_Z fig0) = Inr 0" "amax (fig_Z fig0) = Inr 324"
    "None \<notin> set (ravel (facecolors fig0))"
    "exec (take 3 (notebook lib)) init = Inr s3" "surfaces s3 = [fig0]"
    by blast
  have "\<forall>k s. exec (take k (notebook lib)) init = Inr s \<longrightarrow>
                   surfaces s = (if k < 3 then [] else [fig0])"
    using surfaces_of_prefix[OF f(7)] f(8) by simp
  with f show "\<exists>s2 g0 fig0 s3.
            exec (take 2 (notebook lib)) init = Inr s2 \<and> mg s2 = Some g0 \<and>
            surf_plot g0 None (Some ''Grid 1'') = Inr fig0 \<and>
            amin (fig_Z fig0) = Inr 0 \<and> amax (fig_Z fig0) = Inr 324 \<and>
            None \<notin> set (ravel (facecolors fig0)) \<and>
            exec (take 3 (notebook lib)) init = Inr s3 \<and> surfaces s3 = [fig0] \<and>
            (\<forall>k s. exec (take k (notebook lib)) init = Inr s \<longrightarrow>
                   surfaces s = (if k < 3 then [] else [fig0]))"
    by blast
qed

lemma surf_plot_tiny:
  "surf_plot tiny_grid None None =
     Inr \<lparr> fig_X = [[0, 1]], fig_Y = [[0, 0]], fig_Z = [[0, 3]],
           facecolors = [[Some 0, Some 1]], fig_title = ''Surface plot of topography'' \<rparr>"
  by (simp add: surf_plot_def tiny_grid_def reshape_def amin_def amax_def ravel_def
      np_divide_def numeral_eq_Suc)

theorem surf_plot_divisor_witness:
  "surf_plot tiny_grid None None =
     Inr \<lparr> fig_X = [[0, 1]], fig_Y = [[0, 0]], fig_Z = [[0, 3]],
           facecolors = [[Some 0, Some 1]], fig_title = ''Surface plot of topography'' \<rparr> \<and>
   (\<exists>lo hi. amin [[0, 3]] = Inr lo \<and> amax [[0, 3]] = Inr hi \<and>
      ((hi - lo = 0) =
         (\<forall>a \<in> set (ravel [[0, 3 :: real]]). \<forall>b \<in> set (ravel [[0, 3 :: real]]). a = b)) \<and>
      ((None \<in> set (ravel [[Some (0 :: real), Some 1]])) = (hi - lo = 0))) \<and>
   (\<exists>s fig0. exec (take 62 (notebook demo_lib)) init = Inr s \<and> surfaces s = [fig0] \<and>
      amin (fig_Z fig0) = Inr 0 \<and> amax (fig_Z fig0) = Inr 324 \<and>
      None \<notin> set (ravel (facecolors fig0)))"
proof -
  note t = surf_plot_divisor[of tiny_grid None None
      "\<lparr> fig_X = [[0, 1]], fig_Y = [[0, 0]], fig_Z = [[0, 3]],
         facecolors = [[Some 0, Some 1]], fig_title = ''Surface plot of topography'' \<rparr>"
      demo_lib]
  from demo_runs obtain s where "exec (notebook demo_lib) init = Inr s" ..
  then have s: "exec (take 62 (notebook demo_lib)) init = Inr s"
    by (simp add: length_notebook)
  from t obtain fig0 where f:
    "amin (fig_Z fig0) = Inr 0" "amax (fig_Z fig0) = Inr 324"
    "None \<notin> set (ravel (facecolors fig0))"
    "\<forall>k s. exec (take k (notebook demo_lib)) init = Inr s \<longrightarrow>
            surfaces s = (if k < 3 then [] else [fig0])"
    by blast
  from f(4) s have "surfaces s = [fig0]" by fastforce
  with s f(1,2,3) have "\<exists>s fig0. exec (take 62 (notebook demo_lib)) init = Inr s \<and>
      surfaces s = [fig0] \<and> amin (fig_Z fig0) = Inr 0 \<and> amax (fig_Z fig0) = Inr 324 \<and>
      None \<notin> set (ravel (facecolors fig0))"
    by blast
  with t surf_plot_tiny show ?thesis by simp
qed

section \<open>Array shapes\<close>









end
